theory Spec2Isabelle
  imports Complex_Main
begin

section \<open>Conventions\<close>

text \<open>
  The detection code computes on tensors of 32-bit floats. Every float is modelled by a
  \<^typ>\<open>real\<close>: the properties below are about which entries are written, in which order
  and with which of two candidate values, and none of them depends on rounding. Integer
  tensors (\<open>torch.long\<close>) are lists of \<^typ>\<open>int\<close>, one-dimensional tensors are lists,
  two-dimensional tensors are lists of rows. A Python exception is a value of the type
  \<open>error\<close>; a function that may raise returns \<open>error + 'a\<close> with the exception on the left.
\<close>

datatype error =
    ZeroDivisionError
  | IndexError
  | AssertionError
  | ValueError
  | RuntimeError
  | FloatToIntError

text \<open>Python subscripting \<open>xs[i]\<close> of a sequence by an integer; a negative subscript
  counts from the end, anything outside raises \<open>IndexError\<close>.\<close>

definition py_index :: "'a list \<Rightarrow> int \<Rightarrow> error + 'a" where
  "py_index xs i =
     (if 0 \<le> i \<and> i < int (length xs) then Inr (xs ! nat i)
      else if i < 0 \<and> 0 \<le> int (length xs) + i then Inr (xs ! nat (int (length xs) + i))
      else Inl IndexError)"

section \<open>DynamicRoIHead: the statistics window\<close>

text \<open>
  \<open>src/mmdet/models/roi_heads/dynamic_roi_head.py\<close>. The head owns an assigner with three
  threshold fields and a box head whose regression loss must be a \<open>SmoothL1Loss\<close>.
\<close>

record max_iou_assigner =
  pos_iou_thr :: real
  neg_iou_thr :: real
  min_pos_iou :: real

datatype loss = SmoothL1Loss (beta: real) | OtherLoss

record dynamic_roi_head =
  k_i :: int
  k_e :: int
  iteration_count :: int
  initial_iou :: real
  initial_beta :: real
  cur_iou :: "real list"
  cur_beta :: "real list"
  bbox_assigner :: max_iou_assigner
  loss_bbox :: loss

text \<open>\<open>DynamicRoIHead.__init__\<close>: the two initial values are constants of the class, both
  buffers start empty. The assigner and the loss come from the configuration.\<close>

definition init_dynamic_roi_head ::
  "int \<Rightarrow> int \<Rightarrow> int \<Rightarrow> max_iou_assigner \<Rightarrow> loss \<Rightarrow> dynamic_roi_head" where
  "init_dynamic_roi_head ki ke ic asg l =
     \<lparr>k_i = ki, k_e = ke, iteration_count = ic, initial_iou = 4 / 10, initial_beta = 1,
      cur_iou = [], cur_beta = [], bbox_assigner = asg, loss_bbox = l\<rparr>"

text \<open>
  \<open>DynamicRoIHead.update_statistics\<close>, statement by statement. The object is mutated in
  place, so the state at the moment an exception is raised is part of the result: the
  function returns the head as the call leaves it together with either the exception or
  the returned pair \<open>(new_iou_thr, new_beta)\<close>.
\<close>

definition update_statistics ::
  "dynamic_roi_head \<Rightarrow> dynamic_roi_head \<times> (error + real \<times> real)" where
  "update_statistics self =
     (if iteration_count self = 0 then (self, Inl ZeroDivisionError)
      else
        let new_iou_thr =
              max (initial_iou self)
                  (sum_list (cur_iou self) / real_of_int (iteration_count self));
            self1 = self\<lparr>cur_iou := []\<rparr>;
            self2 = self1\<lparr>bbox_assigner :=
                      (bbox_assigner self1)\<lparr>pos_iou_thr := new_iou_thr\<rparr>\<rparr>;
            self3 = self2\<lparr>bbox_assigner :=
                      (bbox_assigner self2)\<lparr>neg_iou_thr := new_iou_thr\<rparr>\<rparr>;
            self4 = self3\<lparr>bbox_assigner :=
                      (bbox_assigner self3)\<lparr>min_pos_iou := new_iou_thr\<rparr>\<rparr>
        in case py_index (sort (cur_beta self4)) (iteration_count self4 div 2) of
             Inl e \<Rightarrow> (self4, Inl e)
           | Inr kth \<Rightarrow>
               let new_beta = min (initial_beta self4) kth;
                   self5 = self4\<lparr>cur_beta := []\<rparr>
               in (case loss_bbox self5 of
                     SmoothL1Loss b \<Rightarrow>
                       (self5\<lparr>loss_bbox := SmoothL1Loss new_beta\<rparr>,
                        Inr (new_iou_thr, new_beta))
                   | OtherLoss \<Rightarrow> (self5, Inl AssertionError)))"

text \<open>
  The part of \<open>forward_train\<close> that touches the window, for a head with a box branch
  (\<open>with_bbox\<close>). The two scalars a training step appends (the batch mean of the per-image
  \<open>k_i\<close>-th largest overlap, and the \<open>kthvalue\<close> of the regression targets) come out of the
  network and are taken as arguments. The step appends both and calls
  \<open>update_statistics\<close> when \<open>len(self.cur_iou) % iteration_count\<close> is zero.
\<close>

definition forward_train_window ::
  "dynamic_roi_head \<Rightarrow> real \<Rightarrow> real \<Rightarrow> dynamic_roi_head \<times> (error + unit)" where
  "forward_train_window self batch_iou batch_target =
     (let self1 = self\<lparr>cur_iou := cur_iou self @ [batch_iou]\<rparr>;
          self2 = self1\<lparr>cur_beta := cur_beta self1 @ [batch_target]\<rparr>
      in if iteration_count self2 = 0 then (self2, Inl ZeroDivisionError)
         else if int (length (cur_iou self2)) mod iteration_count self2 = 0
         then (case update_statistics self2 of
                 (s, Inl e) \<Rightarrow> (s, Inl e)
               | (s, Inr r) \<Rightarrow> (s, Inr ()))
         else (self2, Inr ()))"

fun forward_train_steps ::
  "dynamic_roi_head \<Rightarrow> (real \<times> real) list \<Rightarrow> dynamic_roi_head \<times> (error + unit)" where
  "forward_train_steps self [] = (self, Inr ())"
| "forward_train_steps self ((i, t) # rest) =
     (case forward_train_window self i t of
        (s, Inl e) \<Rightarrow> (s, Inl e)
      | (s, Inr u) \<Rightarrow> forward_train_steps s rest)"

definition example_head :: dynamic_roi_head where
  "example_head =
     (init_dynamic_roi_head 75 10 2
        \<lparr>pos_iou_thr = 1 / 2, neg_iou_thr = 1 / 2, min_pos_iou = 1 / 2\<rparr> (SmoothL1Loss 1))
     \<lparr>cur_iou := [1 / 2, 7 / 10], cur_beta := [2 / 5, 1 / 5]\<rparr>"

section \<open>UniformAssigner\<close>

text \<open>
  \<open>src/mmdet/core/bbox/assigners/uniform_assigner.py\<close>. A box is a row of four floats in
  corner form \<open>(x1, y1, x2, y2)\<close>.
\<close>

type_synonym box = "real \<times> real \<times> real \<times> real"

text \<open>Modelled from the spec: \<open>bbox_xyxy_to_cxcywh\<close> of \<open>mmdet/core/bbox/transforms.py\<close> is
  imported by the assigner and is not among the sources; the spec names the target as
  center-size \<open>(cx, cy, w, h)\<close> space.\<close>

definition bbox_xyxy_to_cxcywh :: "box \<Rightarrow> box" where
  "bbox_xyxy_to_cxcywh b =
     (case b of (x1, y1, x2, y2) \<Rightarrow> ((x1 + x2) / 2, (y1 + y2) / 2, x2 - x1, y2 - y1))"

text \<open>\<open>torch.cdist(a, b, p=1)\<close>: the matrix of L1 distances, one row per row of \<open>a\<close>.\<close>

definition l1_dist :: "box \<Rightarrow> box \<Rightarrow> real" where
  "l1_dist a b =
     (case a of (a1, a2, a3, a4) \<Rightarrow> case b of (b1, b2, b3, b4) \<Rightarrow>
        \<bar>a1 - b1\<bar> + \<bar>a2 - b2\<bar> + \<bar>a3 - b3\<bar> + \<bar>a4 - b4\<bar>)"

definition cdist1 :: "box list \<Rightarrow> box list \<Rightarrow> real list list" where
  "cdist1 as bs = map (\<lambda>a. map (l1_dist a) bs) as"

definition column :: "'a list list \<Rightarrow> nat \<Rightarrow> 'a list" where
  "column m g = map (\<lambda>row. row ! g) m"

text \<open>
  \<open>torch.topk(C, k, dim=0, largest=False)[1]\<close> on a matrix with \<open>G\<close> columns: for every
  column the row numbers of its \<open>k\<close> smallest entries, smallest first, as a \<open>k \<times> G\<close>
  matrix; it raises when the matrix has fewer than \<open>k\<close> rows. Torch leaves the order
  among equal entries open; the model takes the lower row number first.
\<close>

definition topk_smallest :: "nat \<Rightarrow> real list \<Rightarrow> nat list" where
  "topk_smallest k xs = take k (sort_key (\<lambda>i. xs ! i) [0..<length xs])"

definition topk_dim0 :: "real list list \<Rightarrow> nat \<Rightarrow> nat \<Rightarrow> error + nat list list" where
  "topk_dim0 C k G =
     (if length C < k then Inl RuntimeError
      else Inr (map (\<lambda>r. map (\<lambda>g. topk_smallest k (column C g) ! r) [0..<G]) [0..<k]))"

text \<open>\<open>torch.cat((index, index1), dim=1).reshape(-1)\<close>: row \<open>r\<close> of the result is row \<open>r\<close> of
  \<open>index\<close> followed by row \<open>r\<close> of \<open>index1\<close>; the rows are then laid end to end.\<close>

definition cat_dim1_flat :: "'a list list \<Rightarrow> 'a list list \<Rightarrow> 'a list" where
  "cat_dim1_flat index index1 = concat (map (\<lambda>(a, b). a @ b) (zip index index1))"

text \<open>\<open>t.max(dim=...)\<close> of one line of a matrix; an empty line cannot be reduced.\<close>

fun line_max :: "real list \<Rightarrow> error + real" where
  "line_max [] = Inl IndexError"
| "line_max [x] = Inr x"
| "line_max (x # y # ys) = (case line_max (y # ys) of Inl e \<Rightarrow> Inl e | Inr m \<Rightarrow> Inr (max x m))"

fun sequence_sum :: "(error + 'a) list \<Rightarrow> error + 'a list" where
  "sequence_sum [] = Inr []"
| "sequence_sum (Inl e # rs) = Inl e"
| "sequence_sum (Inr x # rs) = (case sequence_sum rs of Inl e \<Rightarrow> Inl e | Inr xs \<Rightarrow> Inr (x # xs))"

text \<open>Reading a tensor at a list of row numbers, \<open>t[indexes]\<close>, and at paired row and
  column numbers, \<open>t[indexes, cols]\<close>; a number outside the tensor raises.\<close>

definition gather :: "'a list \<Rightarrow> nat list \<Rightarrow> error + 'a list" where
  "gather xs idx =
     sequence_sum (map (\<lambda>i. if i < length xs then Inr (xs ! i) else Inl IndexError) idx)"

definition gather2 :: "'a list list \<Rightarrow> nat list \<Rightarrow> nat list \<Rightarrow> error + 'a list" where
  "gather2 m rows cols =
     (if length rows \<noteq> length cols then Inl IndexError
      else sequence_sum
             (map (\<lambda>(i, j). if i < length m \<and> j < length (m ! i) then Inr (m ! i ! j)
                             else Inl IndexError)
                  (zip rows cols)))"

text \<open>
  Writing a tensor at a list of positions, \<open>t[indexes] = values\<close>. The writes are carried
  out one after the other in the order of \<open>indexes\<close>, so where a position occurs twice
  the later value stays (what the CPU kernel does; the spec describes the same rule).
\<close>

fun index_put :: "'a list \<Rightarrow> nat list \<Rightarrow> 'a list \<Rightarrow> error + 'a list" where
  "index_put xs [] [] = Inr xs"
| "index_put xs (i # idx) (v # vs) =
     (if i < length xs then index_put (xs[i := v]) idx vs else Inl IndexError)"
| "index_put xs idx vs = Inl RuntimeError"

record uniform_assigner =
  match_times :: nat
  pos_ignore_thr :: real
  neg_ignore_thr :: real
  iou_calculator :: "box \<Rightarrow> box \<Rightarrow> real"

text \<open>The \<open>AssignResult\<close> object with the three extra properties the assigner sets on it.
  \<open>max_overlaps\<close> and \<open>labels\<close> may be \<open>None\<close>.\<close>

record assign_result =
  num_gts :: nat
  gt_inds :: "int list"
  max_overlaps :: "real list option"
  labels :: "int list option"
  pos_idx :: "bool list"
  pos_predicted_boxes :: "box list"
  target_boxes :: "box list"

text \<open>The pairwise overlap matrix the configured calculator returns: one row per box of
  the first argument, one column per ground truth.\<close>

definition overlaps :: "(box \<Rightarrow> box \<Rightarrow> real) \<Rightarrow> box list \<Rightarrow> box list \<Rightarrow> real list list" where
  "overlaps iou bs gs = map (\<lambda>b. map (iou b) gs) bs"

text \<open>Step 2 of \<open>assign\<close>: the flat list \<open>indexes\<close>. \<open>index\<close> comes from the cost of the
  decoded predictions, \<open>index1\<close> from the cost of the anchors.\<close>

definition selected_indexes ::
  "uniform_assigner \<Rightarrow> box list \<Rightarrow> box list \<Rightarrow> box list \<Rightarrow> error + nat list" where
  "selected_indexes self bbox_pred anchor gt_bboxes =
     (let C = cdist1 (map bbox_xyxy_to_cxcywh bbox_pred) (map bbox_xyxy_to_cxcywh gt_bboxes);
          C1 = cdist1 (map bbox_xyxy_to_cxcywh anchor) (map bbox_xyxy_to_cxcywh gt_bboxes)
      in case topk_dim0 C (match_times self) (length gt_bboxes) of
           Inl e \<Rightarrow> Inl e
         | Inr index \<Rightarrow>
             (case topk_dim0 C1 (match_times self) (length gt_bboxes) of
                Inl e \<Rightarrow> Inl e
              | Inr index1 \<Rightarrow> Inr (cat_dim1_flat index index1)))"

text \<open>\<open>torch.arange(0, G).repeat(match_times * 2)\<close>.\<close>

definition pos_gt_index :: "uniform_assigner \<Rightarrow> nat \<Rightarrow> nat list" where
  "pos_gt_index self G = concat (replicate (match_times self * 2) [0..<G])"

text \<open>Step 4: the value written for every selected pair, \<open>pos_gt_index + 1\<close> with \<open>-1\<close>
  where the anchor overlap of the pair is below \<open>pos_ignore_thr\<close>.\<close>

definition pos_gt_index_with_ignore :: "uniform_assigner \<Rightarrow> nat list \<Rightarrow> real list \<Rightarrow> int list" where
  "pos_gt_index_with_ignore self pgi pos_ious =
     map (\<lambda>(g, v). if v < pos_ignore_thr self then - 1 else int g + 1) (zip pgi pos_ious)"

text \<open>Step 3: \<open>assigned_gt_inds[pred_max_overlaps > neg_ignore_thr] = -1\<close> on the vector of
  zeros.\<close>

definition neg_ignored :: "uniform_assigner \<Rightarrow> real list \<Rightarrow> int list" where
  "neg_ignored self pred_max_overlaps =
     map (\<lambda>m. if m > neg_ignore_thr self then - 1 else 0) pred_max_overlaps"

text \<open>The label step: \<open>gt_labels[assigned_gt_inds[pos_inds] - 1]\<close> at the positive entries,
  \<open>-1\<close> elsewhere.\<close>

definition assign_labels :: "int list \<Rightarrow> int list \<Rightarrow> error + int list" where
  "assign_labels assigned gt_labels =
     sequence_sum
       (map (\<lambda>v. if v > 0 then py_index gt_labels (v - 1) else Inr (- 1)) assigned)"

definition assign ::
  "uniform_assigner \<Rightarrow> box list \<Rightarrow> box list \<Rightarrow> box list \<Rightarrow> int list option
     \<Rightarrow> error + assign_result" where
  "assign self bbox_pred anchor gt_bboxes gt_labels =
     (let n_gts = length gt_bboxes; num_bboxes = length bbox_pred;
          assigned_gt_inds = replicate num_bboxes (0 :: int);
          assigned_labels = replicate num_bboxes (- 1 :: int)
      in if n_gts = 0 \<or> num_bboxes = 0 then
           Inr \<lparr>num_gts = n_gts, gt_inds = assigned_gt_inds, max_overlaps = None,
                labels = Some assigned_labels, pos_idx = [], pos_predicted_boxes = [],
                target_boxes = []\<rparr>
         else
           case selected_indexes self bbox_pred anchor gt_bboxes of
             Inl e \<Rightarrow> Inl e
           | Inr indexes \<Rightarrow>
           let pred_overlaps = overlaps (iou_calculator self) bbox_pred gt_bboxes;
               anchor_overlaps = overlaps (iou_calculator self) anchor gt_bboxes
           in case sequence_sum (map line_max pred_overlaps) of
             Inl e \<Rightarrow> Inl e
           | Inr pred_max_overlaps \<Rightarrow>
           case sequence_sum (map (\<lambda>g. line_max (column anchor_overlaps g)) [0..<n_gts]) of
             Inl e \<Rightarrow> Inl e
           | Inr anchor_max_overlaps \<Rightarrow>
           let assigned_gt_inds1 = neg_ignored self pred_max_overlaps;
               pgi = pos_gt_index self n_gts
           in case gather2 anchor_overlaps indexes pgi of
             Inl e \<Rightarrow> Inl e
           | Inr pos_ious \<Rightarrow>
           let pos_ignore_idx = map (\<lambda>v. v < pos_ignore_thr self) pos_ious
           in case index_put assigned_gt_inds1 indexes
                     (pos_gt_index_with_ignore self pgi pos_ious) of
             Inl e \<Rightarrow> Inl e
           | Inr assigned_gt_inds2 \<Rightarrow>
           case (case gt_labels of
                   None \<Rightarrow> Inr None
                 | Some ls \<Rightarrow> map_sum id Some (assign_labels assigned_gt_inds2 ls)) of
             Inl e \<Rightarrow> Inl e
           | Inr assigned_labels2 \<Rightarrow>
           case gather bbox_pred indexes of
             Inl e \<Rightarrow> Inl e
           | Inr ppb \<Rightarrow>
           case gather gt_bboxes pgi of
             Inl e \<Rightarrow> Inl e
           | Inr tb \<Rightarrow>
             Inr \<lparr>num_gts = n_gts, gt_inds = assigned_gt_inds2,
                  max_overlaps = Some anchor_max_overlaps, labels = assigned_labels2,
                  pos_idx = map Not pos_ignore_idx, pos_predicted_boxes = ppb,
                  target_boxes = tb\<rparr>)"

text \<open>The \<open>match_times\<close> candidates nearest to ground truth \<open>g\<close> among \<open>boxes\<close>: column \<open>g\<close> of
  what \<open>topk\<close> returns for the cost matrix of \<open>boxes\<close>.\<close>

definition nearest :: "uniform_assigner \<Rightarrow> box list \<Rightarrow> box list \<Rightarrow> nat \<Rightarrow> nat list" where
  "nearest self boxes gt_bboxes g =
     topk_smallest (match_times self)
       (column (cdist1 (map bbox_xyxy_to_cxcywh boxes) (map bbox_xyxy_to_cxcywh gt_bboxes)) g)"

text \<open>The value step 4 writes for the pair of candidate \<open>c\<close> and ground truth \<open>g\<close>.\<close>

definition pair_value :: "uniform_assigner \<Rightarrow> box list \<Rightarrow> box list \<Rightarrow> nat \<Rightarrow> nat \<Rightarrow> int" where
  "pair_value self anchor gt_bboxes c g =
     (if iou_calculator self (anchor ! c) (gt_bboxes ! g) < pos_ignore_thr self then - 1
      else int g + 1)"

text \<open>
  The order of writes as the specification words it, for comparison with the code: all
  raw-anchor matches first, then all decoded-prediction matches, each group by increasing
  ground-truth index. The function returns the \<open>(candidate, ground truth)\<close> pairs in that
  order, and \<open>claimed_gt_inds\<close> carries the writes out in that order on the vector step 3
  leaves.
\<close>

definition claimed_order_pairs ::
  "uniform_assigner \<Rightarrow> box list \<Rightarrow> box list \<Rightarrow> box list \<Rightarrow> (nat \<times> nat) list" where
  "claimed_order_pairs self bbox_pred anchor gt_bboxes =
     concat (map (\<lambda>g. map (\<lambda>c. (c, g)) (nearest self anchor gt_bboxes g))
                 [0..<length gt_bboxes])
     @ concat (map (\<lambda>g. map (\<lambda>c. (c, g)) (nearest self bbox_pred gt_bboxes g))
                   [0..<length gt_bboxes])"

definition claimed_gt_inds ::
  "uniform_assigner \<Rightarrow> box list \<Rightarrow> box list \<Rightarrow> box list \<Rightarrow> error + int list" where
  "claimed_gt_inds self bbox_pred anchor gt_bboxes =
     (case sequence_sum (map line_max (overlaps (iou_calculator self) bbox_pred gt_bboxes)) of
        Inl e \<Rightarrow> Inl e
      | Inr pred_max_overlaps \<Rightarrow>
          index_put (neg_ignored self pred_max_overlaps)
            (map fst (claimed_order_pairs self bbox_pred anchor gt_bboxes))
            (map (\<lambda>(c, g). pair_value self anchor gt_bboxes c g)
                 (claimed_order_pairs self bbox_pred anchor gt_bboxes)))"

text \<open>Modelled from the spec: the calculator \<open>BboxOverlaps2D\<close> is built from the
  configuration and is not among the sources; \<open>assign\<close> takes the calculator as a field of
  the assigner. This one, intersection over union of two corner boxes, serves in the
  examples.\<close>

definition bbox_overlaps_iou :: "box \<Rightarrow> box \<Rightarrow> real" where
  "bbox_overlaps_iou a b =
     (case a of (ax1, ay1, ax2, ay2) \<Rightarrow> case b of (bx1, by1, bx2, by2) \<Rightarrow>
        let area1 = (ax2 - ax1) * (ay2 - ay1);
            area2 = (bx2 - bx1) * (by2 - by1);
            w = max 0 (min ax2 bx2 - max ax1 bx1);
            h = max 0 (min ay2 by2 - max ay1 by1);
            overlap = w * h;
            union = max (area1 + area2 - overlap) (1 / 1000000)
        in overlap / union)"

definition example_assigner :: uniform_assigner where
  "example_assigner =
     \<lparr>match_times = 1, pos_ignore_thr = 15 / 100, neg_ignore_thr = 7 / 10,
      iou_calculator = bbox_overlaps_iou\<rparr>"

definition box_a :: box where "box_a = (0, 0, 10, 10)"

definition box_b :: box where "box_b = (2, 0, 12, 10)"

definition box_far :: box where "box_far = (100, 100, 110, 110)"

definition example_assigner4 :: uniform_assigner where
  "example_assigner4 = example_assigner\<lparr>match_times := 4\<rparr>"

definition example_preds4 :: "box list" where
  "example_preds4 = [box_a, box_b, box_far, box_a]"

definition example_anchors4 :: "box list" where
  "example_anchors4 = [box_a, box_b, box_far, box_b]"

section \<open>AnchorGenerator\<close>

text \<open>
  \<open>src/mmdet/core/anchor/anchor_generator.py\<close>. The arguments of the constructor, with
  \<open>None\<close> for an argument left out, and the object it builds. Sizes of feature maps are
  natural numbers. Ratios are meant positive: the square root of a negative ratio and the
  reciprocal of zero are not-a-number and infinity in the code and some real number here,
  which changes no count and no position.
\<close>

record anchor_args =
  arg_strides :: "int list"
  arg_ratios :: "real list"
  arg_scales :: "real list option"
  arg_base_sizes :: "int list option"
  arg_scale_major :: bool
  arg_octave_base_scale :: "int option"
  arg_scales_per_octave :: "int option"
  arg_centers :: "(real \<times> real) list option"
  arg_center_offset :: real

record anchor_generator =
  strides :: "int list"
  base_sizes :: "int list"
  scales :: "real list"
  octave_base_scale :: "int option"
  scales_per_octave :: "int option"
  ratios :: "real list"
  scale_major :: bool
  centers :: "(real \<times> real) list option"
  center_offset :: real
  base_anchors :: "box list list"

text \<open>\<open>gen_single_level_base_anchors\<close>. The products \<open>w_ratios[:, None] * scales[None, :]\<close>
  flattened by \<open>view(-1)\<close> run over the ratios outside and the scales inside when
  \<open>scale_major\<close> is set, the other way round otherwise.\<close>

definition gen_single_level_base_anchors ::
  "real \<Rightarrow> bool \<Rightarrow> int \<Rightarrow> real list \<Rightarrow> real list \<Rightarrow> (real \<times> real) option \<Rightarrow> box list" where
  "gen_single_level_base_anchors c_offset s_major base_size scs rts center =
     (let w = real_of_int base_size; h = real_of_int base_size;
          (x_center, y_center) =
             (case center of None \<Rightarrow> (c_offset * w, c_offset * h) | Some c \<Rightarrow> c);
          h_ratios = map sqrt rts;
          w_ratios = map (\<lambda>hr. 1 / hr) h_ratios;
          ws = (if s_major then concat (map (\<lambda>wr. map (\<lambda>sc. w * wr * sc) scs) w_ratios)
                else concat (map (\<lambda>sc. map (\<lambda>wr. w * sc * wr) w_ratios) scs));
          hs = (if s_major then concat (map (\<lambda>hr. map (\<lambda>sc. h * hr * sc) scs) h_ratios)
                else concat (map (\<lambda>sc. map (\<lambda>hr. h * sc * hr) h_ratios) scs))
      in map (\<lambda>(ws_i, hs_i).
                (x_center - 0.5 * ws_i, y_center - 0.5 * hs_i,
                 x_center + 0.5 * ws_i, y_center + 0.5 * hs_i))
             (zip ws hs))"

text \<open>\<open>gen_base_anchors\<close>: one set per base size; \<open>self.centers[i]\<close> raises when the list of
  centers is too short.\<close>

fun gen_base_anchors ::
  "real \<Rightarrow> bool \<Rightarrow> real list \<Rightarrow> real list \<Rightarrow> (real \<times> real) list option
     \<Rightarrow> nat \<Rightarrow> int list \<Rightarrow> error + box list list" where
  "gen_base_anchors c_offset s_major scs rts cs i [] = Inr []"
| "gen_base_anchors c_offset s_major scs rts cs i (base_size # rest) =
     (case (case cs of None \<Rightarrow> Inr None
                     | Some l \<Rightarrow> map_sum id Some (py_index l (int i))) of
        Inl e \<Rightarrow> Inl e
      | Inr center \<Rightarrow>
          (case gen_base_anchors c_offset s_major scs rts cs (Suc i) rest of
             Inl e \<Rightarrow> Inl e
           | Inr others \<Rightarrow>
               Inr (gen_single_level_base_anchors c_offset s_major base_size scs rts center
                    # others)))"

text \<open>\<open>AnchorGenerator.__init__\<close>, check by check in the order of the source.\<close>

definition anchor_generator_init :: "anchor_args \<Rightarrow> error + anchor_generator" where
  "anchor_generator_init a =
     (if arg_center_offset a \<noteq> 0 \<and> arg_centers a \<noteq> None then Inl AssertionError
      else if \<not> (0 \<le> arg_center_offset a \<and> arg_center_offset a \<le> 1) then Inl ValueError
      else
        let bs = (case arg_base_sizes a of None \<Rightarrow> arg_strides a | Some l \<Rightarrow> l)
        in if length bs \<noteq> length (arg_strides a) then Inl AssertionError
        else if ((arg_octave_base_scale a \<noteq> None \<and> arg_scales_per_octave a \<noteq> None)
                  = (arg_scales a \<noteq> None)) then Inl AssertionError
        else
          case (case arg_scales a of
                  Some l \<Rightarrow> Inr l
                | None \<Rightarrow>
                    (case (arg_octave_base_scale a, arg_scales_per_octave a) of
                       (Some obs, Some spo) \<Rightarrow>
                          Inr (map (\<lambda>i. 2 powr (real i / real_of_int spo) * real_of_int obs)
                                   [0..<nat spo])
                     | _ \<Rightarrow> Inl ValueError)) of
            Inl e \<Rightarrow> Inl e
          | Inr scs \<Rightarrow>
              (case gen_base_anchors (arg_center_offset a) (arg_scale_major a) scs
                      (arg_ratios a) (arg_centers a) 0 bs of
                 Inl e \<Rightarrow> Inl e
               | Inr ba \<Rightarrow>
                   Inr \<lparr>strides = arg_strides a, base_sizes = bs, scales = scs,
                        octave_base_scale = arg_octave_base_scale a,
                        scales_per_octave = arg_scales_per_octave a,
                        ratios = arg_ratios a, scale_major = arg_scale_major a,
                        centers = arg_centers a, center_offset = arg_center_offset a,
                        base_anchors = ba\<rparr>))"

text \<open>\<open>_meshgrid(x, y)\<close> with \<open>row_major=True\<close>: \<open>x.repeat(len(y))\<close> and every entry of \<open>y\<close>
  repeated \<open>len(x)\<close> times.\<close>

definition meshgrid :: "'a list \<Rightarrow> 'a list \<Rightarrow> 'a list \<times> 'a list" where
  "meshgrid x y =
     (concat (replicate (length y) x), concat (map (\<lambda>v. replicate (length x) v) y))"

definition shift_box :: "box \<Rightarrow> real \<times> real \<Rightarrow> box" where
  "shift_box b s =
     (case b of (x1, y1, x2, y2) \<Rightarrow> case s of (sx, sy) \<Rightarrow> (x1 + sx, y1 + sy, x2 + sx, y2 + sy))"

text \<open>\<open>single_level_grid_anchors\<close>: the shifts \<open>(xx, yy, xx, yy)\<close>, and
  \<open>base_anchors[None, :, :] + shifts[:, None, :]\<close> flattened to rows of four, so that the
  first \<open>A\<close> rows belong to the first shift.\<close>

definition single_level_grid_anchors :: "box list \<Rightarrow> nat \<times> nat \<Rightarrow> int \<Rightarrow> box list" where
  "single_level_grid_anchors base featmap_size stride =
     (case featmap_size of (feat_h, feat_w) \<Rightarrow>
        let shift_x = map (\<lambda>i. int i * stride) [0..<feat_w];
            shift_y = map (\<lambda>i. int i * stride) [0..<feat_h];
            (shift_xx, shift_yy) = meshgrid shift_x shift_y;
            shifts = map (\<lambda>(sx, sy). (real_of_int sx, real_of_int sy)) (zip shift_xx shift_yy)
        in concat (map (\<lambda>s. map (\<lambda>b. shift_box b s) base) shifts))"

text \<open>\<open>grid_anchors\<close>: the number of feature maps must be the number of strides.\<close>

definition grid_anchors :: "anchor_generator \<Rightarrow> (nat \<times> nat) list \<Rightarrow> error + box list list" where
  "grid_anchors self featmap_sizes =
     (if length featmap_sizes \<noteq> length (strides self) then Inl AssertionError
      else sequence_sum
             (map (\<lambda>i. case py_index (base_anchors self) (int i) of
                          Inl e \<Rightarrow> Inl e
                        | Inr base \<Rightarrow>
                            Inr (single_level_grid_anchors base (featmap_sizes ! i)
                                   (strides self ! i)))
                  [0..<length featmap_sizes]))"

text \<open>
  The validity of a configuration as the specification words it, for comparison with the
  constructor: \<open>center_offset\<close> lies in \<open>[0, 1]\<close>, and exactly one of \<open>scales\<close> and the pair
  \<open>(octave_base_scale, scales_per_octave)\<close> is given.
\<close>

definition claimed_valid :: "anchor_args \<Rightarrow> bool" where
  "claimed_valid a =
     (0 \<le> arg_center_offset a \<and> arg_center_offset a \<le> 1
      \<and> ((arg_octave_base_scale a \<noteq> None \<and> arg_scales_per_octave a \<noteq> None)
           \<noteq> (arg_scales a \<noteq> None)))"

text \<open>The docstring's example \<open>AnchorGenerator([16], [1.], [1.], [9])\<close>, and two variations:
  one gives centers together with a center offset, one gives two base sizes for one
  stride.\<close>

definition example_args :: anchor_args where
  "example_args =
     \<lparr>arg_strides = [16], arg_ratios = [1], arg_scales = Some [1], arg_base_sizes = Some [9],
      arg_scale_major = True, arg_octave_base_scale = None, arg_scales_per_octave = None,
      arg_centers = None, arg_center_offset = 0\<rparr>"

definition example_args_centers :: anchor_args where
  "example_args_centers =
     example_args\<lparr>arg_centers := Some [(0, 0)], arg_center_offset := 1 / 2\<rparr>"

definition example_args_sizes :: anchor_args where
  "example_args_sizes = example_args\<lparr>arg_base_sizes := Some [9, 18]\<rparr>"

text \<open>The object the docstring's example builds.\<close>

definition example_generator :: anchor_generator where
  "example_generator =
     \<lparr>strides = [16], base_sizes = [9], scales = [1], octave_base_scale = None,
      scales_per_octave = None, ratios = [1], scale_major = True, centers = None,
      center_offset = 0, base_anchors = [[(- 4.5, - 4.5, 4.5, 4.5)]]\<rparr>"

section \<open>SOLOHead: the targets of one image\<close>

text \<open>
  \<open>src/mmdet/models/dense_heads/solo_head.py\<close>. A mask is a matrix of \<open>uint8\<close> entries, one
  row per image row. \<open>mmcv.imrescale\<close> is a library function and is taken as a parameter.
  The floor division \<open>//\<close> is the floor of the quotient.
\<close>

type_synonym mask = "nat list list"

record solo_head =
  scale_ranges :: "(real \<times> real) list"
  solo_strides :: "int list"
  num_grids :: "nat list"
  num_classes :: int
  pos_scale :: real

text \<open>\<open>center_of_mass\<close>: the first moments of the mask over its sum, the sum clamped from
  below at \<open>1e-6\<close>.\<close>

definition center_of_mass :: "mask \<Rightarrow> real \<times> real" where
  "center_of_mass m =
     (let normalizer = max (real (sum_list (map sum_list m))) (1 / 1000000);
          center_h = real (sum_list (map (\<lambda>(i, row). sum_list (map (\<lambda>v. v * i) row))
                                         (enumerate 0 m))) / normalizer;
          center_w = real (sum_list (map (\<lambda>row. sum_list (map (\<lambda>(j, v). v * j)
                                                              (enumerate 0 row))) m))
                       / normalizer
      in (center_h, center_w))"

text \<open>\<open>int((v / upsampled) // (1. / num_grid))\<close>, for a nonzero divisor and grid number.\<close>

definition grid_cell :: "real \<Rightarrow> nat \<Rightarrow> nat \<Rightarrow> int" where
  "grid_cell v upsampled num_grid = \<lfloor>(v / real upsampled) / (1 / real num_grid)\<rfloor>"

text \<open>The cell of the mass center and the clip box \<open>(top_box, down_box, left_box,
  right_box)\<close> of one instance.\<close>

record instance_region =
  coord_h :: int
  coord_w :: int
  top_box :: int
  down_box :: int
  left_box :: int
  right_box :: int

definition region_of :: "nat \<Rightarrow> nat \<times> nat \<Rightarrow> mask \<Rightarrow> real \<Rightarrow> real \<Rightarrow> instance_region" where
  "region_of num_grid upsampled_size gt_mask pos_h_range pos_w_range =
     (case center_of_mass gt_mask of (center_h, center_w) \<Rightarrow>
        \<lparr>coord_h = grid_cell center_h (fst upsampled_size) num_grid,
         coord_w = grid_cell center_w (snd upsampled_size) num_grid,
         top_box = max 0 (grid_cell (center_h - pos_h_range) (fst upsampled_size) num_grid),
         down_box = min (int num_grid - 1)
                      (grid_cell (center_h + pos_h_range) (fst upsampled_size) num_grid),
         left_box = max 0 (grid_cell (center_w - pos_w_range) (snd upsampled_size) num_grid),
         right_box = min (int num_grid - 1)
                      (grid_cell (center_w + pos_w_range) (snd upsampled_size) num_grid)\<rparr>)"

definition top_row :: "instance_region \<Rightarrow> int" where
  "top_row rg = max (top_box rg) (coord_h rg - 1)"

definition down :: "instance_region \<Rightarrow> int" where
  "down rg = min (down_box rg) (coord_h rg + 1)"

definition left :: "instance_region \<Rightarrow> int" where
  "left rg = max (coord_w rg - 1) (left_box rg)"

definition right :: "instance_region \<Rightarrow> int" where
  "right rg = min (right_box rg) (coord_w rg + 1)"

text \<open>A bound of a Python slice on an axis of length \<open>n\<close>: a negative bound counts from the
  end, and every bound is clipped to the axis.\<close>

definition slice_bound :: "nat \<Rightarrow> int \<Rightarrow> nat" where
  "slice_bound n i = (if i < 0 then nat (max 0 (i + int n)) else min (nat i) n)"

text \<open>\<open>labels[r0:r1, c0:c1] = v\<close>.\<close>

definition set_block :: "int list list \<Rightarrow> int \<Rightarrow> int \<Rightarrow> int \<Rightarrow> int \<Rightarrow> int \<Rightarrow> int list list" where
  "set_block lab r0 r1 c0 c1 v =
     map (\<lambda>(r, row).
            map (\<lambda>(c, x).
                   if slice_bound (length lab) r0 \<le> r \<and> r < slice_bound (length lab) r1
                      \<and> slice_bound (length row) c0 \<le> c \<and> c < slice_bound (length row) c1
                   then v else x)
                (enumerate 0 row))
         (enumerate 0 lab)"

text \<open>\<open>target[:h, :w] = m\<close> for a mask \<open>m\<close> of shape \<open>(h, w)\<close>: the shapes must agree, so \<open>m\<close>
  must fit into the target.\<close>

definition paste :: "mask \<Rightarrow> mask \<Rightarrow> error + mask" where
  "paste target m =
     (if length m \<le> length target
         \<and> list_all (\<lambda>row. list_all (\<lambda>trow. length row \<le> length trow) target) m
      then Inr (map (\<lambda>(i, trow). if i < length m then m ! i @ drop (length (m ! i)) trow
                                   else trow)
                    (enumerate 0 target))
      else Inl RuntimeError)"

text \<open>The targets of one level while they are being filled.\<close>

record level_targets =
  mask_target :: "mask list"
  level_labels :: "int list list"
  pos_mask :: "bool list"

fun fold_sum :: "('a \<Rightarrow> 's \<Rightarrow> error + 's) \<Rightarrow> 'a list \<Rightarrow> 's \<Rightarrow> error + 's" where
  "fold_sum f [] s = Inr s"
| "fold_sum f (x # xs) s = (case f x s of Inl e \<Rightarrow> Inl e | Inr s' \<Rightarrow> fold_sum f xs s')"

text \<open>The body of the innermost iteration: \<open>index = int(i * num_grid + j)\<close>, the mask written
  into \<open>mask_target[index]\<close> and \<open>pos_mask[index]\<close> set.\<close>

definition write_cell :: "nat \<Rightarrow> mask \<Rightarrow> int \<times> int \<Rightarrow> level_targets \<Rightarrow> error + level_targets" where
  "write_cell num_grid m ij t =
     (case ij of (i, j) \<Rightarrow>
        case py_index (mask_target t) (i * int num_grid + j) of
          Inl e \<Rightarrow> Inl e
        | Inr target \<Rightarrow>
            (case paste target m of
               Inl e \<Rightarrow> Inl e
             | Inr pasted \<Rightarrow>
                 let k = (if i * int num_grid + j < 0
                          then nat (int (length (mask_target t)) + (i * int num_grid + j))
                          else nat (i * int num_grid + j))
                 in Inr (t\<lparr>mask_target := (mask_target t)[k := pasted],
                           pos_mask := (pos_mask t)[k := True]\<rparr>)))"

definition cells :: "instance_region \<Rightarrow> (int \<times> int) list" where
  "cells rg = concat (map (\<lambda>i. map (\<lambda>j. (i, j)) [left rg..right rg]) [top_row rg..down rg])"

text \<open>
  One pass of the loop over the instances of a level. \<open>1. / num_grid\<close> raises for a grid
  number of zero; with a zero upsampled size the quotient is infinite or not a number and
  \<open>int\<close> raises (\<open>OverflowError\<close> or \<open>ValueError\<close>, here \<open>FloatToIntError\<close>);
  \<open>1. / output_stride\<close> raises for a stride of zero.
\<close>

definition process_instance ::
  "(mask \<Rightarrow> real \<Rightarrow> mask) \<Rightarrow> nat \<Rightarrow> int \<Rightarrow> nat \<times> nat
     \<Rightarrow> mask \<times> int \<times> real \<times> real \<times> bool \<Rightarrow> level_targets \<Rightarrow> error + level_targets" where
  "process_instance rescale num_grid stride upsampled_size inst t =
     (case inst of (gt_mask, gt_label, pos_h_range, pos_w_range, valid_mask_flag) \<Rightarrow>
        if \<not> valid_mask_flag then Inr t
        else if num_grid = 0 then Inl ZeroDivisionError
        else if snd upsampled_size = 0 \<or> fst upsampled_size = 0 then Inl FloatToIntError
        else
          let rg = region_of num_grid upsampled_size gt_mask pos_h_range pos_w_range;
              t1 = t\<lparr>level_labels :=
                       set_block (level_labels t) (top_row rg) (down rg + 1) (left rg)
                         (right rg + 1) gt_label\<rparr>
          in if stride = 0 then Inl ZeroDivisionError
             else fold_sum (write_cell num_grid
                              (rescale gt_mask (1 / (real_of_int stride / 2))))
                    (cells rg) t1)"

text \<open>The indices of the ground truths whose \<open>gt_areas\<close> entry lies in the scale range of
  the level. The square root of a negative product is not a number and compares false.\<close>

definition gt_area_in_range :: "real \<times> real \<Rightarrow> box \<Rightarrow> bool" where
  "gt_area_in_range rng b =
     (case b of (x1, y1, x2, y2) \<Rightarrow>
        0 \<le> (x2 - x1) * (y2 - y1)
        \<and> fst rng \<le> sqrt ((x2 - x1) * (y2 - y1))
        \<and> sqrt ((x2 - x1) * (y2 - y1)) \<le> snd rng)"

definition hit_inds :: "real \<times> real \<Rightarrow> box list \<Rightarrow> nat list" where
  "hit_inds rng gt_bboxes =
     filter (\<lambda>i. gt_area_in_range rng (gt_bboxes ! i)) [0..<length gt_bboxes]"

definition empty_targets :: "nat \<Rightarrow> nat \<times> nat \<Rightarrow> int \<Rightarrow> level_targets" where
  "empty_targets num_grid featmap_size n_classes =
     \<lparr>mask_target = replicate (num_grid ^ 2)
                       (replicate (fst featmap_size) (replicate (snd featmap_size) 0)),
      level_labels = replicate num_grid (replicate num_grid n_classes),
      pos_mask = replicate (num_grid ^ 2) False\<rparr>"

text \<open>The body of the loop over the levels.\<close>

definition level_targets_of ::
  "solo_head \<Rightarrow> (mask \<Rightarrow> real \<Rightarrow> mask) \<Rightarrow> box list \<Rightarrow> int list \<Rightarrow> mask list
     \<Rightarrow> (nat \<times> nat) list
     \<Rightarrow> (real \<times> real) \<times> int \<times> (nat \<times> nat) \<times> nat \<Rightarrow> error + level_targets" where
  "level_targets_of self rescale gt_bboxes gt_labels gt_masks featmap_sizes lvl =
     (case lvl of (rng, stride, featmap_size, num_grid) \<Rightarrow>
        let t0 = empty_targets num_grid featmap_size (num_classes self);
            gt_inds = hit_inds rng gt_bboxes
        in if length gt_inds = 0 then Inr t0
           else
             case gather gt_bboxes gt_inds of Inl e \<Rightarrow> Inl e | Inr hit_gt_bboxes \<Rightarrow>
             case gather gt_labels gt_inds of Inl e \<Rightarrow> Inl e | Inr hit_gt_labels \<Rightarrow>
             case gather gt_masks gt_inds of Inl e \<Rightarrow> Inl e | Inr hit_gt_masks \<Rightarrow>
               let pos_w_ranges = map (\<lambda>(x1, y1, x2, y2). 0.5 * (x2 - x1) * pos_scale self)
                                      hit_gt_bboxes;
                   pos_h_ranges = map (\<lambda>(x1, y1, x2, y2). 0.5 * (y2 - y1) * pos_scale self)
                                      hit_gt_bboxes;
                   valid_mask_flags = map (\<lambda>m. sum_list (map sum_list m) > 0) hit_gt_masks;
                   upsampled_size = (fst (featmap_sizes ! 0) * 4, snd (featmap_sizes ! 0) * 4)
               in fold_sum (process_instance rescale num_grid stride upsampled_size)
                    (zip hit_gt_masks (zip hit_gt_labels (zip pos_h_ranges
                       (zip pos_w_ranges valid_mask_flags))))
                    t0)"

text \<open>\<open>_get_targets_single\<close>. Its first statement reads \<open>gt_labels[0]\<close>. The loop runs over
  the \<open>zip\<close> of the four per-level lists.\<close>

definition get_targets_single ::
  "solo_head \<Rightarrow> (mask \<Rightarrow> real \<Rightarrow> mask) \<Rightarrow> box list \<Rightarrow> int list \<Rightarrow> mask list
     \<Rightarrow> (nat \<times> nat) list \<Rightarrow> error + level_targets list" where
  "get_targets_single self rescale gt_bboxes gt_labels gt_masks featmap_sizes =
     (case py_index gt_labels 0 of
        Inl e \<Rightarrow> Inl e
      | Inr first_label \<Rightarrow>
          sequence_sum
            (map (level_targets_of self rescale gt_bboxes gt_labels gt_masks featmap_sizes)
                 (zip (scale_ranges self)
                    (zip (solo_strides self) (zip featmap_sizes (num_grids self))))))"

text \<open>An example: two levels over feature maps of size \<open>2 \<times> 2\<close>, so an upsampled size of
  \<open>8 \<times> 8\<close>; a mask of four pixels around \<open>(5.5, 5.5)\<close>; and, in place of the library's
  rescaling, the upper left \<open>2 \<times> 2\<close> corner of a mask.\<close>

definition example_solo_head :: solo_head where
  "example_solo_head =
     \<lparr>scale_ranges = [(1, 96), (48, 192)], solo_strides = [8, 8], num_grids = [4, 3],
      num_classes = 80, pos_scale = 0.2\<rparr>"

definition example_mask :: mask where
  "example_mask =
     (replicate 8 (replicate 8 0))
       [5 := [0, 0, 0, 0, 0, 1, 1, 0], 6 := [0, 0, 0, 0, 0, 1, 1, 0]]"

definition corner_rescale :: "mask \<Rightarrow> real \<Rightarrow> mask" where
  "corner_rescale m scale = take 2 (map (take 2) m)"

section \<open>Properties of the statistics window\<close>

lemma update_statistics_assigner:
  assumes "iteration_count self \<noteq> 0"
  shows "bbox_assigner (fst (update_statistics self)) =
           (bbox_assigner self)\<lparr>
              pos_iou_thr := max (initial_iou self)
                 (sum_list (cur_iou self) / real_of_int (iteration_count self)),
              neg_iou_thr := max (initial_iou self)
                 (sum_list (cur_iou self) / real_of_int (iteration_count self)),
              min_pos_iou := max (initial_iou self)
                 (sum_list (cur_iou self) / real_of_int (iteration_count self))\<rparr>"
  using assms
  by (simp add: update_statistics_def Let_def split: sum.split loss.split)

lemma update_statistics_returns:
  assumes ic: "0 < iteration_count self"
      and lb: "length (cur_beta self) = nat (iteration_count self)"
      and sl: "loss_bbox self = SmoothL1Loss b0"
  shows "update_statistics self =
     (let thr = max (initial_iou self)
                  (sum_list (cur_iou self) / real_of_int (iteration_count self));
          nb = min (initial_beta self)
                  (sort (cur_beta self) ! nat (iteration_count self div 2))
      in (self\<lparr>cur_iou := [], cur_beta := [],
               bbox_assigner := (bbox_assigner self)
                  \<lparr>pos_iou_thr := thr, neg_iou_thr := thr, min_pos_iou := thr\<rparr>,
               loss_bbox := SmoothL1Loss nb\<rparr>,
          Inr (thr, nb)))"
proof -
  have "0 \<le> iteration_count self div 2" "iteration_count self div 2 < iteration_count self"
    using ic by simp_all
  then have "py_index (sort (cur_beta self)) (iteration_count self div 2)
      = Inr (sort (cur_beta self) ! nat (iteration_count self div 2))"
    using lb ic by (simp add: py_index_def)
  then show ?thesis
    using ic sl by (simp add: update_statistics_def Let_def)
qed

text \<open>A training step below the window length only appends; the step that fills the
  window calls \<open>update_statistics\<close> on the full buffers.\<close>

lemma forward_train_window_accumulates:
  assumes "0 < iteration_count self"
      and "int (length (cur_iou self)) + 1 < iteration_count self"
  shows "forward_train_window self i t
           = (self\<lparr>cur_iou := cur_iou self @ [i], cur_beta := cur_beta self @ [t]\<rparr>, Inr ())"
  using assms by (simp add: forward_train_window_def Let_def)

lemma forward_train_window_applies:
  assumes "0 < iteration_count self"
      and "int (length (cur_iou self)) + 1 = iteration_count self"
      and "int (length (cur_beta self)) + 1 = iteration_count self"
      and "loss_bbox self = SmoothL1Loss b0"
  shows "forward_train_window self i t
           = (fst (update_statistics
                     (self\<lparr>cur_iou := cur_iou self @ [i], cur_beta := cur_beta self @ [t]\<rparr>)),
              Inr ())"
proof -
  let ?s = "self\<lparr>cur_iou := cur_iou self @ [i], cur_beta := cur_beta self @ [t]\<rparr>"
  have "int (length (cur_iou ?s)) = iteration_count ?s" using assms(2) by simp
  then have m: "int (length (cur_iou ?s)) mod iteration_count ?s = 0"
    by (simp only: mod_self)
  have "length (cur_beta ?s) = nat (iteration_count ?s)" using assms(3) by simp
  from update_statistics_returns[of ?s b0, OF _ this] assms(1,4)
  obtain s' r where us: "update_statistics ?s = (s', Inr r)"
    by (simp add: Let_def)
  have "(case update_statistics ?s of
                 (s, Inl e) \<Rightarrow> (s, Inl e)
               | (s, Inr r) \<Rightarrow> (s, Inr ())) = (fst (update_statistics ?s), Inr ())"
    unfolding us by simp
  then show ?thesis
    using assms(1) m unfolding forward_train_window_def Let_def by simp
qed

text \<open>
  Claim C2, as the code has it. When both windows hold \<open>iteration_count\<close> samples,
  \<open>update_statistics\<close> returns; the new threshold is the larger of \<open>initial_iou\<close> and the
  mean of the overlap window, so it never falls below \<open>initial_iou\<close>; the new beta is the
  smaller of \<open>initial_beta\<close> and the entry number \<open>iteration_count // 2\<close> of the sorted beta
  window, so it never rises above \<open>initial_beta\<close>; the threshold is stored in the assigner,
  the beta in the loss, and both windows are empty afterwards.
\<close>

theorem C2_update_statistics_window:
  assumes "0 < iteration_count self"
      and "length (cur_iou self) = nat (iteration_count self)"
      and "length (cur_beta self) = nat (iteration_count self)"
      and "loss_bbox self = SmoothL1Loss b0"
  shows "let thr = max (initial_iou self)
                     (sum_list (cur_iou self) / real (length (cur_iou self)));
             nb = min (initial_beta self)
                     (sort (cur_beta self) ! nat (iteration_count self div 2));
             self' = fst (update_statistics self)
         in snd (update_statistics self) = Inr (thr, nb)
          \<and> pos_iou_thr (bbox_assigner self') = thr
          \<and> loss_bbox self' = SmoothL1Loss nb
          \<and> initial_iou self \<le> thr
          \<and> nb \<le> initial_beta self
          \<and> cur_iou self' = [] \<and> cur_beta self' = []"
  using assms update_statistics_returns[of self b0]
  by (simp add: Let_def)

theorem C2_update_statistics_window_witness:
  "0 < iteration_count example_head
   \<and> length (cur_iou example_head) = nat (iteration_count example_head)
   \<and> length (cur_beta example_head) = nat (iteration_count example_head)
   \<and> loss_bbox example_head = SmoothL1Loss 1
   \<and> snd (update_statistics example_head) = Inr (3 / 5, 2 / 5)
   \<and> cur_iou (fst (update_statistics example_head)) = []
   \<and> cur_beta (fst (update_statistics example_head)) = []"
  using C2_update_statistics_window[of example_head 1]
  by (simp add: example_head_def init_dynamic_roi_head_def Let_def)

text \<open>
  Claim C2 as stated says that the new beta, too, never falls below its initial value. On
  a window of two samples \<open>0.4\<close> and \<open>0.2\<close> the new beta is \<open>0.4\<close>, below the initial \<open>1.0\<close>.
\<close>

theorem C2_beta_below_initial_counterexample:
  "snd (update_statistics example_head) = Inr (3 / 5, 2 / 5)
   \<and> (2 / 5 :: real) < initial_beta example_head"
  by (simp add: example_head_def init_dynamic_roi_head_def update_statistics_def
      py_index_def Let_def)

text \<open>
  Claim C10. Whenever \<open>update_statistics\<close> gets as far as computing a threshold (the window
  length is not zero, so the division does not raise), the head it leaves behind has the
  same value, the newly computed threshold, in \<open>pos_iou_thr\<close>, \<open>neg_iou_thr\<close> and
  \<open>min_pos_iou\<close>, whether or not a later statement of the call raises. The positive and the
  negative threshold are therefore equal.
\<close>

theorem C10_all_three_thresholds:
  assumes "iteration_count self \<noteq> 0"
  shows "let thr = max (initial_iou self)
                     (sum_list (cur_iou self) / real_of_int (iteration_count self));
             asg = bbox_assigner (fst (update_statistics self))
         in pos_iou_thr asg = thr \<and> neg_iou_thr asg = thr \<and> min_pos_iou asg = thr
          \<and> pos_iou_thr asg = neg_iou_thr asg"
  using update_statistics_assigner[OF assms] by (simp add: Let_def)

theorem C10_all_three_thresholds_witness:
  "iteration_count example_head \<noteq> 0
   \<and> pos_iou_thr (bbox_assigner (fst (update_statistics example_head))) = 3 / 5
   \<and> neg_iou_thr (bbox_assigner (fst (update_statistics example_head))) = 3 / 5
   \<and> min_pos_iou (bbox_assigner (fst (update_statistics example_head))) = 3 / 5"
  using C10_all_three_thresholds[of example_head]
  by (simp add: example_head_def init_dynamic_roi_head_def Let_def)

section \<open>Properties of UniformAssigner\<close>

subsection \<open>Lists of rows and lists of results\<close>

lemma concat_uniform_length:
  "\<forall>row \<in> set rows. length row = n \<Longrightarrow> length (concat rows) = length rows * n"
  by (induction rows) auto

lemma concat_uniform_nth:
  "\<forall>row \<in> set rows. length row = n \<Longrightarrow> r < length rows \<Longrightarrow> j < n
     \<Longrightarrow> concat rows ! (r * n + j) = rows ! r ! j"
proof (induction rows arbitrary: r)
  case Nil
  then show ?case by simp
next
  case (Cons row rows)
  show ?case
  proof (cases r)
    case 0
    with Cons.prems show ?thesis by (simp add: nth_append)
  next
    case (Suc r')
    with Cons.prems have "concat rows ! (r' * n + j) = rows ! r' ! j"
      by (intro Cons.IH) auto
    with Suc Cons.prems show ?thesis by (simp add: nth_append)
  qed
qed

lemma sequence_sum_map_Inr:
  "sequence_sum (map f xs) = Inr ys \<Longrightarrow>
     length ys = length xs \<and> (\<forall>i < length xs. f (xs ! i) = Inr (ys ! i))"
proof (induction xs arbitrary: ys)
  case Nil
  then show ?case by simp
next
  case (Cons x xs)
  then obtain y where y: "f x = Inr y"
    by (cases "f x") auto
  with Cons.prems obtain ys' where ys': "sequence_sum (map f xs) = Inr ys'" "ys = y # ys'"
    by (cases "sequence_sum (map f xs)") auto
  from Cons.IH[OF ys'(1)] y ys'(2) show ?case
    by (auto simp: nth_Cons split: nat.splits)
qed

lemma sequence_sum_map_total:
  "\<forall>x \<in> set xs. \<exists>y. f x = Inr y \<Longrightarrow> \<exists>ys. sequence_sum (map f xs) = Inr ys"
proof (induction xs)
  case Nil
  then show ?case by simp
next
  case (Cons x xs)
  then obtain y ys where "f x = Inr y" "sequence_sum (map f xs) = Inr ys"
    by auto
  then show ?case by simp
qed

subsection \<open>The selected indexes\<close>

lemma cat_dim1_flat_rows:
  "cat_dim1_flat (map f [0..<k]) (map h [0..<k]) = concat (map (\<lambda>r. f r @ h r) [0..<k])"
  by (simp add: cat_dim1_flat_def zip_map_map zip_same_conv_map comp_def)

lemma selected_indexes_Inr:
  assumes "selected_indexes self bbox_pred anchor gts = Inr idx"
  shows "match_times self \<le> length bbox_pred"
    and "match_times self \<le> length anchor"
    and "idx = concat (map (\<lambda>r. map (\<lambda>g. nearest self bbox_pred gts g ! r) [0..<length gts]
                                 @ map (\<lambda>g. nearest self anchor gts g ! r) [0..<length gts])
                           [0..<match_times self])"
  using assms
  by (auto simp: selected_indexes_def topk_dim0_def cdist1_def Let_def nearest_def
        cat_dim1_flat_rows split: if_splits)

lemma selected_indexes_length:
  assumes "selected_indexes self bbox_pred anchor gts = Inr idx"
  shows "length idx = match_times self * (2 * length gts)"
proof -
  have "length idx = length (map (\<lambda>r. map (\<lambda>g. nearest self bbox_pred gts g ! r) [0..<length gts]
                                 @ map (\<lambda>g. nearest self anchor gts g ! r) [0..<length gts])
                           [0..<match_times self]) * (2 * length gts)"
    unfolding selected_indexes_Inr(3)[OF assms]
    by (rule concat_uniform_length) auto
  then show ?thesis by simp
qed

lemma selected_indexes_nth:
  assumes "selected_indexes self bbox_pred anchor gts = Inr idx"
      and "k < match_times self" and "g < length gts"
  shows "idx ! (k * (2 * length gts) + g) = nearest self bbox_pred gts g ! k"
    and "idx ! (k * (2 * length gts) + length gts + g) = nearest self anchor gts g ! k"
proof -
  let ?rows = "map (\<lambda>r. map (\<lambda>g. nearest self bbox_pred gts g ! r) [0..<length gts]
                         @ map (\<lambda>g. nearest self anchor gts g ! r) [0..<length gts])
                   [0..<match_times self]"
  have u: "\<forall>row \<in> set ?rows. length row = 2 * length gts" by auto
  have k: "k < length ?rows" using assms(2) by simp
  have idx: "idx = concat ?rows" by (rule selected_indexes_Inr(3)[OF assms(1)])
  have "concat ?rows ! (k * (2 * length gts) + g) = ?rows ! k ! g"
    using assms(3) by (intro concat_uniform_nth[OF u k]) simp
  then show "idx ! (k * (2 * length gts) + g) = nearest self bbox_pred gts g ! k"
    using assms(2,3) idx by (simp add: nth_append)
  have "concat ?rows ! (k * (2 * length gts) + (length gts + g)) = ?rows ! k ! (length gts + g)"
    using assms(3) by (intro concat_uniform_nth[OF u k]) simp
  then show "idx ! (k * (2 * length gts) + length gts + g) = nearest self anchor gts g ! k"
    using assms(2,3) idx by (simp add: nth_append add.assoc)
qed

lemma nearest_length:
  "match_times self \<le> length boxes \<Longrightarrow> length (nearest self boxes gts g) = match_times self"
  by (simp add: nearest_def topk_smallest_def column_def cdist1_def)

lemma nearest_range:
  "i \<in> set (nearest self boxes gts g) \<Longrightarrow> i < length boxes"
  unfolding nearest_def topk_smallest_def
  by (auto simp: column_def cdist1_def dest: in_set_takeD)

lemma selected_indexes_range:
  assumes "selected_indexes self bbox_pred anchor gts = Inr idx"
      and "length anchor = length bbox_pred"
      and "i \<in> set idx"
  shows "i < length bbox_pred"
proof -
  have mt: "match_times self \<le> length bbox_pred" "match_times self \<le> length anchor"
    using selected_indexes_Inr(1,2)[OF assms(1)] .
  from assms(3) obtain r g where rg: "r < match_times self" "g < length gts"
     "i = nearest self bbox_pred gts g ! r \<or> i = nearest self anchor gts g ! r"
    unfolding selected_indexes_Inr(3)[OF assms(1)] by auto
  have "nearest self bbox_pred gts g ! r \<in> set (nearest self bbox_pred gts g)"
    using rg(1) nearest_length[OF mt(1)] by simp
  moreover have "nearest self anchor gts g ! r \<in> set (nearest self anchor gts g)"
    using rg(1) nearest_length[OF mt(2)] by simp
  ultimately show ?thesis using rg(3) nearest_range assms(2) by metis
qed

subsection \<open>The ground-truth index of every entry\<close>

lemma pos_gt_index_length: "length (pos_gt_index self G) = match_times self * (2 * G)"
proof -
  have "length (concat (replicate (match_times self * 2) [0..<G]))
          = length (replicate (match_times self * 2) [0..<G]) * G"
    by (rule concat_uniform_length) simp
  then show ?thesis by (simp add: pos_gt_index_def)
qed

lemma pos_gt_index_nth:
  assumes "p < match_times self * (2 * G)"
  shows "pos_gt_index self G ! p = p mod G"
proof -
  have G: "0 < G" using assms by (cases G) auto
  have d: "p div G < match_times self * 2"
    using assms by (simp add: less_mult_imp_div_less mult.commute mult.left_commute)
  have "concat (replicate (match_times self * 2) [0..<G]) ! (p div G * G + p mod G)
          = replicate (match_times self * 2) [0..<G] ! (p div G) ! (p mod G)"
    using G d by (intro concat_uniform_nth) auto
  then show ?thesis using G d by (simp add: pos_gt_index_def)
qed

subsection \<open>Writing at a list of positions\<close>

lemma index_put_Cons:
  "index_put xs (i # idx) vs = Inr ys \<Longrightarrow>
     \<exists>v vs'. vs = v # vs' \<and> i < length xs \<and> index_put (xs[i := v]) idx vs' = Inr ys"
  by (cases vs) (simp_all split: if_splits)

lemma index_put_Nil: "index_put xs [] vs = Inr ys \<Longrightarrow> vs = [] \<and> ys = xs"
  by (cases vs) simp_all

lemma index_put_Inr_length:
  "index_put xs idx vs = Inr ys \<Longrightarrow>
     length ys = length xs \<and> length idx = length vs \<and> (\<forall>i \<in> set idx. i < length xs)"
proof (induction idx arbitrary: xs vs)
  case Nil
  then show ?case using index_put_Nil by fastforce
next
  case (Cons i idx)
  from index_put_Cons[OF Cons.prems] obtain v vs' where
    h: "vs = v # vs'" "i < length xs" "index_put (xs[i := v]) idx vs' = Inr ys" by blast
  from Cons.IH[OF h(3)] h(1,2) show ?case by simp
qed

lemma index_put_untouched:
  "index_put xs idx vs = Inr ys \<Longrightarrow> c \<notin> set idx \<Longrightarrow> ys ! c = xs ! c"
proof (induction idx arbitrary: xs vs)
  case Nil
  then show ?case using index_put_Nil by fastforce
next
  case (Cons i idx)
  from index_put_Cons[OF Cons.prems(1)] obtain v vs' where
    h: "vs = v # vs'" "i < length xs" "index_put (xs[i := v]) idx vs' = Inr ys" by blast
  from Cons.IH[OF h(3)] Cons.prems(2) show ?case by simp
qed

lemma index_put_last_write:
  "index_put xs idx vs = Inr ys \<Longrightarrow> p < length idx
     \<Longrightarrow> \<forall>q. p < q \<and> q < length idx \<longrightarrow> idx ! q \<noteq> idx ! p
     \<Longrightarrow> ys ! (idx ! p) = vs ! p"
proof (induction idx arbitrary: xs vs p)
  case Nil
  then show ?case by simp
next
  case (Cons i idx)
  from index_put_Cons[OF Cons.prems(1)] obtain v vs' where
    h: "vs = v # vs'" "i < length xs" "index_put (xs[i := v]) idx vs' = Inr ys" by blast
  show ?case
  proof (cases p)
    case 0
    have "i \<notin> set idx"
    proof
      assume "i \<in> set idx"
      then obtain q where "q < length idx" "idx ! q = i" by (auto simp: in_set_conv_nth)
      with Cons.prems(3)[rule_format, of "Suc q"] 0 show False by simp
    qed
    with index_put_untouched[OF h(3)] h(1,2) 0 show ?thesis by simp
  next
    case (Suc p')
    have "ys ! (idx ! p') = vs' ! p'"
    proof (rule Cons.IH[OF h(3)])
      show "p' < length idx" using Cons.prems(2) Suc by simp
      show "\<forall>q. p' < q \<and> q < length idx \<longrightarrow> idx ! q \<noteq> idx ! p'"
      proof (intro allI impI)
        fix q assume "p' < q \<and> q < length idx"
        with Cons.prems(3)[rule_format, of "Suc q"] Suc show "idx ! q \<noteq> idx ! p'" by simp
      qed
    qed
    with Suc h(1) show ?thesis by simp
  qed
qed

lemma index_put_total:
  "length idx = length vs \<Longrightarrow> \<forall>i \<in> set idx. i < length xs \<Longrightarrow> \<exists>ys. index_put xs idx vs = Inr ys"
proof (induction idx arbitrary: xs vs)
  case Nil
  then show ?case by simp
next
  case (Cons i idx)
  then obtain v vs' where v: "vs = v # vs'" by (cases vs) auto
  with Cons.prems have "\<exists>ys. index_put (xs[i := v]) idx vs' = Inr ys"
    by (intro Cons.IH) auto
  with v Cons.prems show ?case by simp
qed

subsection \<open>The nearest candidates\<close>

lemma topk_smallest_length: "length (topk_smallest k xs) = min k (length xs)"
  by (simp add: topk_smallest_def)

lemma topk_smallest_distinct: "distinct (topk_smallest k xs)"
  by (simp add: topk_smallest_def distinct_take)

lemma topk_smallest_range: "i \<in> set (topk_smallest k xs) \<Longrightarrow> i < length xs"
  unfolding topk_smallest_def using set_take_subset[of k "sort_key (\<lambda>i. xs ! i) [0..<length xs]"]
  by auto

lemma topk_smallest_nearest:
  assumes "i \<in> set (topk_smallest k xs)" and "j < length xs" and "j \<notin> set (topk_smallest k xs)"
  shows "xs ! i \<le> xs ! j"
proof -
  let ?s = "sort_key (\<lambda>i. xs ! i) [0..<length xs]"
  have srt: "sorted (map (\<lambda>i. xs ! i) ?s)" by simp
  have "j \<in> set ?s" using assms(2) by simp
  then have "j \<in> set (take k ?s) \<union> set (drop k ?s)"
    by (metis append_take_drop_id set_append)
  with assms(3) have jd: "j \<in> set (drop k ?s)" by (simp add: topk_smallest_def)
  have it: "i \<in> set (take k ?s)" using assms(1) by (simp add: topk_smallest_def)
  have "sorted (map (\<lambda>i. xs ! i) (take k ?s) @ map (\<lambda>i. xs ! i) (drop k ?s))"
    using srt by (metis append_take_drop_id map_append)
  then have "\<forall>a \<in> set (map (\<lambda>i. xs ! i) (take k ?s)). \<forall>b \<in> set (map (\<lambda>i. xs ! i) (drop k ?s)). a \<le> b"
    by (simp add: sorted_append)
  with it jd show ?thesis by auto
qed

lemma topk_smallest_sorted:
  "sorted (map (\<lambda>i. xs ! i) (topk_smallest k xs))"
proof -
  have "sorted (take k (map (\<lambda>i. xs ! i) (sort_key (\<lambda>i. xs ! i) [0..<length xs])))"
    by (rule sorted_wrt_take) simp
  then show ?thesis by (simp add: topk_smallest_def take_map)
qed

subsection \<open>What a returning call of \<open>assign\<close> has computed\<close>

lemma assign_nondegenerate:
  assumes "assign self bbox_pred anchor gts lbl = Inr r" and "gts \<noteq> []" and "bbox_pred \<noteq> []"
  shows "\<exists>idx pmo amo pos_ious.
      selected_indexes self bbox_pred anchor gts = Inr idx
    \<and> sequence_sum (map line_max (overlaps (iou_calculator self) bbox_pred gts)) = Inr pmo
    \<and> sequence_sum (map (\<lambda>g. line_max (column (overlaps (iou_calculator self) anchor gts) g))
                         [0..<length gts]) = Inr amo
    \<and> gather2 (overlaps (iou_calculator self) anchor gts) idx (pos_gt_index self (length gts))
         = Inr pos_ious
    \<and> index_put (neg_ignored self pmo) idx
         (pos_gt_index_with_ignore self (pos_gt_index self (length gts)) pos_ious)
         = Inr (gt_inds r)
    \<and> max_overlaps r = Some amo
    \<and> pos_idx r = map (\<lambda>v. \<not> v < pos_ignore_thr self) pos_ious
    \<and> gather bbox_pred idx = Inr (pos_predicted_boxes r)
    \<and> gather gts (pos_gt_index self (length gts)) = Inr (target_boxes r)
    \<and> num_gts r = length gts"
  using assms unfolding assign_def Let_def
  by (auto split: sum.splits simp: comp_def)

lemma line_max_total: "xs \<noteq> [] \<Longrightarrow> \<exists>m. line_max xs = Inr m"
  by (induction xs rule: line_max.induct) auto

lemma line_max_exceeds:
  "line_max xs = Inr m \<Longrightarrow> (t < m) = (\<exists>x \<in> set xs. t < x)"
proof (induction xs arbitrary: m rule: line_max.induct)
  case 1
  then show ?case by simp
next
  case (2 x)
  then show ?case by simp
next
  case (3 x y ys)
  then obtain m' where m': "line_max (y # ys) = Inr m'" "m = max x m'"
    by (auto split: sum.splits)
  from "3.IH"[OF m'(1)] m'(2) show ?case by auto
qed

lemma gather2_Inr:
  assumes "gather2 m rows cols = Inr vs"
  shows "length rows = length cols" and "length vs = length rows"
    and "\<forall>p < length rows. rows ! p < length m \<and> cols ! p < length (m ! (rows ! p))
            \<and> vs ! p = m ! (rows ! p) ! (cols ! p)"
proof -
  show l: "length rows = length cols"
    using assms by (auto simp: gather2_def split: if_splits)
  let ?f = "\<lambda>(i, j). if i < length m \<and> j < length (m ! i) then Inr (m ! i ! j)
                       else Inl IndexError"
  have s: "sequence_sum (map ?f (zip rows cols)) = Inr vs"
    using assms l by (simp add: gather2_def)
  from sequence_sum_map_Inr[OF s] l show "length vs = length rows" by simp
  show "\<forall>p < length rows. rows ! p < length m \<and> cols ! p < length (m ! (rows ! p))
            \<and> vs ! p = m ! (rows ! p) ! (cols ! p)"
  proof (intro allI impI)
    fix p assume p: "p < length rows"
    with sequence_sum_map_Inr[OF s] l have "?f (zip rows cols ! p) = Inr (vs ! p)" by simp
    with p l show "rows ! p < length m \<and> cols ! p < length (m ! (rows ! p))
            \<and> vs ! p = m ! (rows ! p) ! (cols ! p)"
      by (auto split: if_splits)
  qed
qed

lemma gather_Inr_length: "gather xs idx = Inr ys \<Longrightarrow> length ys = length idx"
  unfolding gather_def using sequence_sum_map_Inr by fastforce

text \<open>The value written at position \<open>p\<close> of \<open>indexes\<close> is the value of the pair made of
  the candidate at that position and ground truth \<open>p mod G\<close>.\<close>

lemma written_value:
  assumes sel: "selected_indexes self bbox_pred anchor gts = Inr idx"
      and g2: "gather2 (overlaps (iou_calculator self) anchor gts) idx
                 (pos_gt_index self (length gts)) = Inr pos_ious"
      and p: "p < length idx"
  shows "pos_gt_index_with_ignore self (pos_gt_index self (length gts)) pos_ious ! p
           = pair_value self anchor gts (idx ! p) (p mod length gts)"
    and "pos_ious ! p = iou_calculator self (anchor ! (idx ! p)) (gts ! (p mod length gts))"
proof -
  have len: "length idx = match_times self * (2 * length gts)"
    by (rule selected_indexes_length[OF sel])
  have pg: "pos_gt_index self (length gts) ! p = p mod length gts"
    using p len by (simp add: pos_gt_index_nth)
  have G: "0 < length gts" using p len by (cases gts) auto
  from gather2_Inr[OF g2] p
  have lv: "length pos_ious = length idx"
   and r: "idx ! p < length (overlaps (iou_calculator self) anchor gts)"
   and v: "pos_ious ! p = overlaps (iou_calculator self) anchor gts ! (idx ! p)
                             ! (pos_gt_index self (length gts) ! p)"
    by auto
  from r have ra: "idx ! p < length anchor" by (simp add: overlaps_def)
  show v': "pos_ious ! p = iou_calculator self (anchor ! (idx ! p)) (gts ! (p mod length gts))"
    using v pg ra G by (simp add: overlaps_def)
  have "pos_gt_index_with_ignore self (pos_gt_index self (length gts)) pos_ious ! p
          = (if pos_ious ! p < pos_ignore_thr self then - 1
             else int (pos_gt_index self (length gts) ! p) + 1)"
    using p lv len by (simp add: pos_gt_index_with_ignore_def pos_gt_index_length)
  then show "pos_gt_index_with_ignore self (pos_gt_index self (length gts)) pos_ious ! p
           = pair_value self anchor gts (idx ! p) (p mod length gts)"
    using v' pg by (simp add: pair_value_def)
qed

lemma neg_ignored_nth:
  assumes "sequence_sum (map line_max (overlaps iou bbox_pred gts)) = Inr pmo"
      and "c < length bbox_pred"
  shows "neg_ignored self pmo ! c
           = (if \<exists>g \<in> set gts. neg_ignore_thr self < iou (bbox_pred ! c) g then - 1 else 0)"
proof -
  from sequence_sum_map_Inr[OF assms(1)] assms(2)
  have l: "length pmo = length bbox_pred"
    and m: "line_max (overlaps iou bbox_pred gts ! c) = Inr (pmo ! c)"
    by (simp_all add: overlaps_def)
  from m assms(2) have "line_max (map (iou (bbox_pred ! c)) gts) = Inr (pmo ! c)"
    by (simp add: overlaps_def)
  from line_max_exceeds[OF this, of "neg_ignore_thr self"]
  have "(neg_ignore_thr self < pmo ! c) = (\<exists>g \<in> set gts. neg_ignore_thr self < iou (bbox_pred ! c) g)"
    by auto
  then show ?thesis using l assms(2) by (simp add: neg_ignored_def)
qed

text \<open>The three facts about the vector \<open>gt_inds\<close> of a returning call: its length, the
  entries no selection touches, and the entries the last selection of a candidate leaves.\<close>

lemma assign_gt_inds_length:
  assumes "assign self bbox_pred anchor gts lbl = Inr r"
  shows "length (gt_inds r) = length bbox_pred"
proof (cases "gts = [] \<or> bbox_pred = []")
  case True
  with assms show ?thesis by (auto simp: assign_def Let_def)
next
  case False
  with assign_nondegenerate[OF assms] obtain idx pmo pos_ious where
    pm: "sequence_sum (map line_max (overlaps (iou_calculator self) bbox_pred gts)) = Inr pmo"
    and ip: "index_put (neg_ignored self pmo) idx
         (pos_gt_index_with_ignore self (pos_gt_index self (length gts)) pos_ious)
         = Inr (gt_inds r)" by auto
  from sequence_sum_map_Inr[OF pm] index_put_Inr_length[OF ip]
  show ?thesis by (simp add: neg_ignored_def overlaps_def)
qed

lemma assign_unselected:
  assumes a: "assign self bbox_pred anchor gts lbl = Inr r" and "gts \<noteq> []" and "bbox_pred \<noteq> []"
      and sel: "selected_indexes self bbox_pred anchor gts = Inr idx"
      and c: "c < length bbox_pred" "c \<notin> set idx"
  shows "gt_inds r ! c
           = (if \<exists>g \<in> set gts. neg_ignore_thr self < iou_calculator self (bbox_pred ! c) g
              then - 1 else 0)"
proof -
  from assign_nondegenerate[OF assms(1-3)] sel obtain pmo pos_ious where
    pm: "sequence_sum (map line_max (overlaps (iou_calculator self) bbox_pred gts)) = Inr pmo"
    and ip: "index_put (neg_ignored self pmo) idx
         (pos_gt_index_with_ignore self (pos_gt_index self (length gts)) pos_ious)
         = Inr (gt_inds r)" by auto
  from index_put_untouched[OF ip c(2)] neg_ignored_nth[OF pm c(1)] show ?thesis by simp
qed

lemma assign_last_write:
  assumes a: "assign self bbox_pred anchor gts lbl = Inr r" and "gts \<noteq> []" and "bbox_pred \<noteq> []"
      and sel: "selected_indexes self bbox_pred anchor gts = Inr idx"
      and p: "p < length idx" "\<forall>q. p < q \<and> q < length idx \<longrightarrow> idx ! q \<noteq> idx ! p"
  shows "gt_inds r ! (idx ! p) = pair_value self anchor gts (idx ! p) (p mod length gts)"
proof -
  from assign_nondegenerate[OF assms(1-3)] sel obtain pmo pos_ious where
    g2: "gather2 (overlaps (iou_calculator self) anchor gts) idx (pos_gt_index self (length gts))
         = Inr pos_ious"
    and ip: "index_put (neg_ignored self pmo) idx
         (pos_gt_index_with_ignore self (pos_gt_index self (length gts)) pos_ious)
         = Inr (gt_inds r)" by auto
  from index_put_last_write[OF ip p] written_value(1)[OF sel g2 p(1)] show ?thesis by simp
qed

lemma assign_pos_idx:
  assumes a: "assign self bbox_pred anchor gts lbl = Inr r" and "gts \<noteq> []" and "bbox_pred \<noteq> []"
      and sel: "selected_indexes self bbox_pred anchor gts = Inr idx"
  shows "length (pos_idx r) = length idx"
    and "p < length idx \<Longrightarrow> pos_idx r ! p
           = (\<not> iou_calculator self (anchor ! (idx ! p)) (gts ! (p mod length gts))
                  < pos_ignore_thr self)"
proof -
  from assign_nondegenerate[OF assms(1-3)] sel obtain pos_ious where
    g2: "gather2 (overlaps (iou_calculator self) anchor gts) idx (pos_gt_index self (length gts))
         = Inr pos_ious"
    and pi: "pos_idx r = map (\<lambda>v. \<not> v < pos_ignore_thr self) pos_ious" by auto
  from gather2_Inr(2)[OF g2] pi show l: "length (pos_idx r) = length idx" by simp
  assume p: "p < length idx"
  with written_value(2)[OF sel g2 p] pi gather2_Inr(2)[OF g2]
  show "pos_idx r ! p
           = (\<not> iou_calculator self (anchor ! (idx ! p)) (gts ! (p mod length gts))
                  < pos_ignore_thr self)" by simp
qed

text \<open>Every position has a last position that names the same candidate.\<close>

lemma last_occurrence:
  assumes "p < length (idx :: nat list)"
  shows "\<exists>q. p \<le> q \<and> q < length idx \<and> idx ! q = idx ! p
            \<and> (\<forall>q'. q < q' \<and> q' < length idx \<longrightarrow> idx ! q' \<noteq> idx ! q)"
proof -
  let ?S = "{q. q < length idx \<and> idx ! q = idx ! p}"
  have fin: "finite ?S" by simp
  have ne: "p \<in> ?S" using assms by simp
  let ?q = "Max ?S"
  have qS: "?q \<in> ?S" using fin ne by (intro Max_in) auto
  have "p \<le> ?q" using fin ne by (intro Max_ge) auto
  moreover have "\<forall>q'. ?q < q' \<and> q' < length idx \<longrightarrow> idx ! q' \<noteq> idx ! ?q"
  proof (intro allI impI notI)
    fix q' assume h: "?q < q' \<and> q' < length idx" and e: "idx ! q' = idx ! ?q"
    with qS have "q' \<in> ?S" by simp
    then have "q' \<le> ?q" using fin by (intro Max_ge) auto
    with h show False by simp
  qed
  ultimately show ?thesis using qS by blast
qed

subsection \<open>When \<open>assign\<close> returns\<close>

lemma gather_total: "\<forall>i \<in> set idx. i < length xs \<Longrightarrow> \<exists>ys. gather xs idx = Inr ys"
  unfolding gather_def by (rule sequence_sum_map_total) auto

lemma gather2_total:
  assumes "length rows = length cols"
      and "\<forall>i \<in> set rows. i < length m" and "\<forall>j \<in> set cols. \<forall>i < length m. j < length (m ! i)"
  shows "\<exists>vs. gather2 m rows cols = Inr vs"
proof -
  have "\<exists>vs. sequence_sum
             (map (\<lambda>(i, j). if i < length m \<and> j < length (m ! i) then Inr (m ! i ! j)
                             else Inl IndexError)
                  (zip rows cols)) = Inr vs"
  proof (rule sequence_sum_map_total, intro ballI)
    fix x assume "x \<in> set (zip rows cols)"
    then have "fst x \<in> set rows \<and> snd x \<in> set cols"
      by (metis set_zip_leftD set_zip_rightD prod.collapse)
    with assms(2,3) show "\<exists>y. (case x of (i, j) \<Rightarrow>
              if i < length m \<and> j < length (m ! i) then Inr (m ! i ! j) else Inl IndexError) = Inr y"
      by (cases x) auto
  qed
  with assms(1) show ?thesis by (simp add: gather2_def)
qed

lemma index_put_values:
  "index_put xs idx vs = Inr ys \<Longrightarrow> set ys \<subseteq> set xs \<union> set vs"
proof (induction idx arbitrary: xs vs)
  case Nil
  then show ?case using index_put_Nil by fastforce
next
  case (Cons i idx)
  from index_put_Cons[OF Cons.prems] obtain v vs' where
    h: "vs = v # vs'" "i < length xs" "index_put (xs[i := v]) idx vs' = Inr ys" by blast
  from Cons.IH[OF h(3)] have "set ys \<subseteq> set (xs[i := v]) \<union> set vs'" .
  moreover have "set (xs[i := v]) \<subseteq> insert v (set xs)" by (rule set_update_subset_insert)
  ultimately show ?case using h(1) by auto
qed

lemma pos_gt_index_range: "g \<in> set (pos_gt_index self G) \<Longrightarrow> g < G"
  by (auto simp: pos_gt_index_def split: if_splits)

lemma assign_labels_total:
  assumes "\<forall>v \<in> set assigned. v \<le> int (length ls)"
  shows "\<exists>out. assign_labels assigned ls = Inr out"
  unfolding assign_labels_def
proof (rule sequence_sum_map_total, intro ballI)
  fix v assume "v \<in> set assigned"
  with assms have "v \<le> int (length ls)" by simp
  then show "\<exists>y. (if 0 < v then py_index ls (v - 1) else Inr (- 1)) = Inr y"
    by (auto simp: py_index_def)
qed

lemma selected_indexes_total:
  assumes "match_times self \<le> length bbox_pred" and "match_times self \<le> length anchor"
  shows "\<exists>idx. selected_indexes self bbox_pred anchor gts = Inr idx"
  using assms by (simp add: selected_indexes_def topk_dim0_def cdist1_def Let_def)

lemma assign_total:
  assumes gts: "gts \<noteq> []" and bp: "bbox_pred \<noteq> []"
      and la: "length anchor = length bbox_pred"
      and mt: "match_times self \<le> length bbox_pred"
      and lb: "case lbl of None \<Rightarrow> True | Some ls \<Rightarrow> length gts \<le> length ls"
  shows "\<exists>r. assign self bbox_pred anchor gts lbl = Inr r"
proof -
  let ?iou = "iou_calculator self"
  let ?G = "length gts"
  obtain idx where sel: "selected_indexes self bbox_pred anchor gts = Inr idx"
    using selected_indexes_total[of self bbox_pred anchor gts] mt la by auto
  have idx_range: "\<forall>i \<in> set idx. i < length bbox_pred"
    using selected_indexes_range[OF sel la] by blast
  have "\<exists>pmo. sequence_sum (map line_max (overlaps ?iou bbox_pred gts)) = Inr pmo"
    by (rule sequence_sum_map_total) (use gts in \<open>auto simp: overlaps_def intro: line_max_total\<close>)
  then obtain pmo where pm: "sequence_sum (map line_max (overlaps ?iou bbox_pred gts)) = Inr pmo" ..
  have lpmo: "length pmo = length bbox_pred"
    using sequence_sum_map_Inr[OF pm] by (simp add: overlaps_def)
  have an: "anchor \<noteq> []" using la bp by auto
  have "\<exists>amo. sequence_sum (map (\<lambda>g. line_max (column (overlaps ?iou anchor gts) g)) [0..<?G])
                 = Inr amo"
    by (rule sequence_sum_map_total)
       (use an in \<open>auto simp: overlaps_def column_def intro: line_max_total\<close>)
  then obtain amo where am:
    "sequence_sum (map (\<lambda>g. line_max (column (overlaps ?iou anchor gts) g)) [0..<?G]) = Inr amo" ..
  have "\<exists>pos_ious. gather2 (overlaps ?iou anchor gts) idx (pos_gt_index self ?G) = Inr pos_ious"
  proof (rule gather2_total)
    show "length idx = length (pos_gt_index self ?G)"
      by (simp add: selected_indexes_length[OF sel] pos_gt_index_length)
    show "\<forall>i \<in> set idx. i < length (overlaps ?iou anchor gts)"
      using idx_range la by (simp add: overlaps_def)
    show "\<forall>j \<in> set (pos_gt_index self ?G). \<forall>i < length (overlaps ?iou anchor gts).
             j < length (overlaps ?iou anchor gts ! i)"
      by (auto simp: overlaps_def dest: pos_gt_index_range)
  qed
  then obtain pos_ious where
    g2: "gather2 (overlaps ?iou anchor gts) idx (pos_gt_index self ?G) = Inr pos_ious" ..
  let ?vals = "pos_gt_index_with_ignore self (pos_gt_index self ?G) pos_ious"
  have lv: "length ?vals = length idx"
    using gather2_Inr(1,2)[OF g2] by (simp add: pos_gt_index_with_ignore_def)
  have "\<exists>out. index_put (neg_ignored self pmo) idx ?vals = Inr out"
    by (rule index_put_total) (use lv idx_range lpmo in \<open>simp_all add: neg_ignored_def\<close>)
  then obtain out where ip: "index_put (neg_ignored self pmo) idx ?vals = Inr out" ..
  have out_le: "\<forall>v \<in> set out. v \<le> int ?G"
  proof
    fix v assume "v \<in> set out"
    with index_put_values[OF ip] have "v \<in> set (neg_ignored self pmo) \<or> v \<in> set ?vals" by auto
    then show "v \<le> int ?G"
    proof
      assume "v \<in> set (neg_ignored self pmo)"
      then show ?thesis by (auto simp: neg_ignored_def)
    next
      assume "v \<in> set ?vals"
      then obtain g w where "(g, w) \<in> set (zip (pos_gt_index self ?G) pos_ious)"
         "v = (if w < pos_ignore_thr self then - 1 else int g + 1)"
        by (auto simp: pos_gt_index_with_ignore_def)
      moreover then have "g < ?G" by (auto dest: set_zip_leftD pos_gt_index_range)
      ultimately show ?thesis by auto
    qed
  qed
  have "\<exists>l. (case lbl of None \<Rightarrow> Inr None
              | Some ls \<Rightarrow> map_sum id Some (assign_labels out ls)) = Inr l"
  proof (cases lbl)
    case None
    then show ?thesis by simp
  next
    case (Some ls)
    with lb out_le have "\<forall>v \<in> set out. v \<le> int (length ls)" by fastforce
    from assign_labels_total[OF this] Some show ?thesis by auto
  qed
  then obtain l where l: "(case lbl of None \<Rightarrow> Inr None
              | Some ls \<Rightarrow> map_sum id Some (assign_labels out ls)) = Inr l" ..
  obtain ppb where ppb: "gather bbox_pred idx = Inr ppb"
    using gather_total[OF idx_range] by blast
  have "\<forall>i \<in> set (pos_gt_index self ?G). i < length gts" by (auto dest: pos_gt_index_range)
  from gather_total[OF this] obtain tb where tb: "gather gts (pos_gt_index self ?G) = Inr tb"
    by blast
  show ?thesis
    unfolding assign_def Let_def using gts bp sel pm am g2 ip l ppb tb by simp
qed

subsection \<open>The claims about \<open>assign\<close>\<close>

lemma nearest_is_nearest:
  assumes i: "i \<in> set (nearest self boxes gts g)" and g: "g < length gts"
      and j: "j < length boxes" "j \<notin> set (nearest self boxes gts g)"
  shows "l1_dist (bbox_xyxy_to_cxcywh (boxes ! i)) (bbox_xyxy_to_cxcywh (gts ! g))
           \<le> l1_dist (bbox_xyxy_to_cxcywh (boxes ! j)) (bbox_xyxy_to_cxcywh (gts ! g))"
proof -
  let ?col = "column (cdist1 (map bbox_xyxy_to_cxcywh boxes) (map bbox_xyxy_to_cxcywh gts)) g"
  have col: "\<And>c. c < length boxes \<Longrightarrow>
     ?col ! c = l1_dist (bbox_xyxy_to_cxcywh (boxes ! c)) (bbox_xyxy_to_cxcywh (gts ! g))"
    using g by (simp add: column_def cdist1_def)
  have il: "i < length boxes" by (rule nearest_range[OF i])
  have "?col ! i \<le> ?col ! j"
    using i j by (intro topk_smallest_nearest) (simp_all add: nearest_def column_def cdist1_def)
  then show ?thesis using col[OF il] col[OF j(1)] by simp
qed

lemma nearest_distinct: "distinct (nearest self boxes gts g)"
  by (simp add: nearest_def topk_smallest_distinct)

lemma selected_nonempty:
  assumes sel: "selected_indexes self bbox_pred anchor gts = Inr idx" and p: "p < length idx"
  shows "gts \<noteq> []" and "bbox_pred \<noteq> []"
proof -
  have "p < match_times self * (2 * length gts)"
    using p selected_indexes_length[OF sel] by simp
  then have "0 < match_times self" "0 < length gts"
    by (cases "match_times self"; cases "length gts"; simp)+
  then show "gts \<noteq> []" "bbox_pred \<noteq> []"
    using selected_indexes_Inr(1)[OF sel] by auto
qed

lemma pair_value_cases:
  "pair_value self anchor gts c g = int g + 1 \<Longrightarrow>
     \<not> iou_calculator self (anchor ! c) (gts ! g) < pos_ignore_thr self"
  by (simp add: pair_value_def split: if_splits)

lemma pair_value_range:
  "pair_value self anchor gts c g = - 1 \<or> pair_value self anchor gts c g = int g + 1"
  by (simp add: pair_value_def)

text \<open>
  Claim C1, as the code has it. For a call with at least one ground truth and one candidate
  that returns: the list \<open>indexes\<close> has \<open>match_times\<close> blocks of \<open>2 * G\<close> entries, block \<open>k\<close>
  holding first the rank-\<open>k\<close> match of every ground truth among the decoded predictions and
  then the rank-\<open>k\<close> match of every ground truth among the raw anchors, each by increasing
  ground-truth index. A candidate no entry names keeps what the negative-ignore step gave
  it: \<open>-1\<close> when its overlap with some ground truth exceeds \<open>neg_ignore_thr\<close>, else \<open>0\<close>. A
  candidate that is named holds the value of the last entry naming it, whatever the
  negative-ignore step wrote there before.
\<close>

theorem C1_write_order:
  assumes "assign self bbox_pred anchor gts lbl = Inr r"
      and "gts \<noteq> []" and "bbox_pred \<noteq> []"
  shows "\<exists>idx. selected_indexes self bbox_pred anchor gts = Inr idx
     \<and> length idx = match_times self * (2 * length gts)
     \<and> (\<forall>k < match_times self. \<forall>g < length gts.
           idx ! (k * (2 * length gts) + g) = nearest self bbox_pred gts g ! k
         \<and> idx ! (k * (2 * length gts) + length gts + g) = nearest self anchor gts g ! k)
     \<and> (\<forall>c < length bbox_pred. c \<notin> set idx \<longrightarrow>
           gt_inds r ! c =
             (if \<exists>g \<in> set gts. neg_ignore_thr self < iou_calculator self (bbox_pred ! c) g
              then - 1 else 0))
     \<and> (\<forall>p < length idx. (\<forall>q. p < q \<and> q < length idx \<longrightarrow> idx ! q \<noteq> idx ! p) \<longrightarrow>
           gt_inds r ! (idx ! p) = pair_value self anchor gts (idx ! p) (p mod length gts))"
proof -
  from assign_nondegenerate[OF assms] obtain idx where
    sel: "selected_indexes self bbox_pred anchor gts = Inr idx" by blast
  have "length idx = match_times self * (2 * length gts)"
    by (rule selected_indexes_length[OF sel])
  moreover have "\<forall>k < match_times self. \<forall>g < length gts.
           idx ! (k * (2 * length gts) + g) = nearest self bbox_pred gts g ! k
         \<and> idx ! (k * (2 * length gts) + length gts + g) = nearest self anchor gts g ! k"
    using selected_indexes_nth[OF sel] by blast
  moreover have "\<forall>c < length bbox_pred. c \<notin> set idx \<longrightarrow>
           gt_inds r ! c =
             (if \<exists>g \<in> set gts. neg_ignore_thr self < iou_calculator self (bbox_pred ! c) g
              then - 1 else 0)"
    using assign_unselected[OF assms sel] by blast
  moreover have "\<forall>p < length idx. (\<forall>q. p < q \<and> q < length idx \<longrightarrow> idx ! q \<noteq> idx ! p) \<longrightarrow>
           gt_inds r ! (idx ! p) = pair_value self anchor gts (idx ! p) (p mod length gts)"
    using assign_last_write[OF assms sel] by blast
  ultimately show ?thesis using sel by blast
qed

theorem C1_write_order_witness:
  "assign example_assigner [box_a, box_b] [box_b, box_a] [box_a, box_b] None
     = Inr \<lparr>num_gts = 2, gt_inds = [2, 1], max_overlaps = Some [1, 1], labels = None,
            pos_idx = [True, True, True, True],
            pos_predicted_boxes = [box_a, box_b, box_b, box_a],
            target_boxes = [box_a, box_b, box_a, box_b]\<rparr>
   \<and> (\<exists>idx. selected_indexes example_assigner [box_a, box_b] [box_b, box_a] [box_a, box_b]
               = Inr idx
          \<and> length idx = match_times example_assigner * (2 * length [box_a, box_b]))"
proof -
  have a: "assign example_assigner [box_a, box_b] [box_b, box_a] [box_a, box_b] None
     = Inr \<lparr>num_gts = 2, gt_inds = [2, 1], max_overlaps = Some [1, 1], labels = None,
            pos_idx = [True, True, True, True],
            pos_predicted_boxes = [box_a, box_b, box_b, box_a],
            target_boxes = [box_a, box_b, box_a, box_b]\<rparr>"
    by code_simp
  from C1_write_order[OF a] have
    "\<exists>idx. selected_indexes example_assigner [box_a, box_b] [box_b, box_a] [box_a, box_b]
               = Inr idx
          \<and> length idx = match_times example_assigner * (2 * length [box_a, box_b])"
    by blast
  with a show ?thesis by blast
qed

text \<open>
  Claim C1 as stated puts the raw-anchor matches before the decoded-prediction matches.
  With one match per ground truth, candidate 0 is the prediction nearest to ground truth 0
  and the anchor nearest to ground truth 1, candidate 1 the other way round. The code
  leaves candidate 0 with ground truth 2 (one-based), the anchor match, written last; in
  the stated order the prediction match would be last and leave ground truth 1.
\<close>

theorem C1_anchor_before_prediction_counterexample:
  "map_sum id gt_inds
     (assign example_assigner [box_a, box_b] [box_b, box_a] [box_a, box_b] None) = Inr [2, 1]
   \<and> claimed_gt_inds example_assigner [box_a, box_b] [box_b, box_a] [box_a, box_b]
       = Inr [1, 2]"
  by code_simp

text \<open>
  Claim C3. Take any entry \<open>p\<close> of \<open>indexes\<close>, that is a selected pair of the candidate
  \<open>indexes[p]\<close> and the ground truth \<open>p mod G\<close>, whose anchor overlap is below
  \<open>pos_ignore_thr\<close>. The value written for the pair is \<open>-1\<close>, its flag in \<open>pos_idx\<close> is false,
  the candidate is not assigned to that ground truth in the result, and unless a later
  entry names the same candidate its entry of \<open>gt_inds\<close> is \<open>-1\<close>.
\<close>

theorem C3_selected_below_threshold_is_ignored:
  assumes a: "assign self bbox_pred anchor gts lbl = Inr r"
      and sel: "selected_indexes self bbox_pred anchor gts = Inr idx"
      and p: "p < length idx"
      and below: "iou_calculator self (anchor ! (idx ! p)) (gts ! (p mod length gts))
                    < pos_ignore_thr self"
  shows "pair_value self anchor gts (idx ! p) (p mod length gts) = - 1
       \<and> \<not> pos_idx r ! p
       \<and> gt_inds r ! (idx ! p) \<noteq> int (p mod length gts) + 1
       \<and> ((\<forall>q. p < q \<and> q < length idx \<longrightarrow> idx ! q \<noteq> idx ! p) \<longrightarrow>
             gt_inds r ! (idx ! p) = - 1)"
proof -
  note ne = selected_nonempty[OF sel p]
  have pv: "pair_value self anchor gts (idx ! p) (p mod length gts) = - 1"
    using below by (simp add: pair_value_def)
  have flag: "\<not> pos_idx r ! p"
    using assign_pos_idx(2)[OF a ne sel p] below by simp
  have last: "(\<forall>q. p < q \<and> q < length idx \<longrightarrow> idx ! q \<noteq> idx ! p) \<longrightarrow>
             gt_inds r ! (idx ! p) = - 1"
    using assign_last_write[OF a ne sel p] pv by simp
  have "gt_inds r ! (idx ! p) \<noteq> int (p mod length gts) + 1"
  proof
    assume eq: "gt_inds r ! (idx ! p) = int (p mod length gts) + 1"
    from last_occurrence[OF p] obtain q where
      q: "q < length idx" "idx ! q = idx ! p"
         "\<forall>q'. q < q' \<and> q' < length idx \<longrightarrow> idx ! q' \<noteq> idx ! q" by blast
    from assign_last_write[OF a ne sel q(1) q(3)] q(2) eq
    have v: "pair_value self anchor gts (idx ! p) (q mod length gts) = int (p mod length gts) + 1"
      by simp
    with pair_value_range[of self anchor gts "idx ! p" "q mod length gts"]
    have "q mod length gts = p mod length gts" by auto
    with v pair_value_cases[of self anchor gts "idx ! p" "p mod length gts"] below
    show False by simp
  qed
  with pv flag last show ?thesis by blast
qed

theorem C3_selected_below_threshold_is_ignored_witness:
  "assign example_assigner [box_a, box_b] [box_far, box_a] [box_a, box_b] None
     = Inr \<lparr>num_gts = 2, gt_inds = [- 1, 2], max_overlaps = Some [1, 2 / 3], labels = None,
            pos_idx = [False, True, True, True],
            pos_predicted_boxes = [box_a, box_b, box_b, box_b],
            target_boxes = [box_a, box_b, box_a, box_b]\<rparr>
   \<and> selected_indexes example_assigner [box_a, box_b] [box_far, box_a] [box_a, box_b]
       = Inr [0, 1, 1, 1]
   \<and> iou_calculator example_assigner ([box_far, box_a] ! 0) ([box_a, box_b] ! 0)
       < pos_ignore_thr example_assigner
   \<and> pair_value example_assigner [box_far, box_a] [box_a, box_b] 0 0 = - 1"
proof -
  have a: "assign example_assigner [box_a, box_b] [box_far, box_a] [box_a, box_b] None
     = Inr \<lparr>num_gts = 2, gt_inds = [- 1, 2], max_overlaps = Some [1, 2 / 3], labels = None,
            pos_idx = [False, True, True, True],
            pos_predicted_boxes = [box_a, box_b, box_b, box_b],
            target_boxes = [box_a, box_b, box_a, box_b]\<rparr>"
    by code_simp
  have sel: "selected_indexes example_assigner [box_a, box_b] [box_far, box_a] [box_a, box_b]
       = Inr [0, 1, 1, 1]"
    by code_simp
  have below: "iou_calculator example_assigner ([box_far, box_a] ! ([0, 1, 1, 1] ! 0))
                 ([box_a, box_b] ! (0 mod length [box_a, box_b]))
       < pos_ignore_thr example_assigner"
    by code_simp
  from C3_selected_below_threshold_is_ignored[OF a sel _ below]
  have "pair_value example_assigner [box_far, box_a] [box_a, box_b] 0 0 = - 1" by simp
  with a sel below show ?thesis by simp
qed

text \<open>
  Claim C4. With no ground truth, \<open>assign\<close> returns a result in which every candidate has
  \<open>gt_inds\<close> 0 (background; none is \<open>-1\<close>) and label \<open>-1\<close>; with no candidate it returns a
  result whose per-candidate vectors are empty. Neither call raises.
\<close>

theorem C4_degenerate_inputs:
  "assign self bbox_pred anchor [] lbl
     = Inr \<lparr>num_gts = 0, gt_inds = replicate (length bbox_pred) 0, max_overlaps = None,
            labels = Some (replicate (length bbox_pred) (- 1)), pos_idx = [],
            pos_predicted_boxes = [], target_boxes = []\<rparr>
   \<and> assign self [] anchor gts lbl
     = Inr \<lparr>num_gts = length gts, gt_inds = [], max_overlaps = None, labels = Some [],
            pos_idx = [], pos_predicted_boxes = [], target_boxes = []\<rparr>"
  by (simp add: assign_def Let_def)

theorem C4_degenerate_inputs_witness:
  "assign example_assigner [box_a, box_b, box_far] [box_a, box_b, box_far] [] (Some [])
     = Inr \<lparr>num_gts = 0, gt_inds = [0, 0, 0], max_overlaps = None,
            labels = Some [- 1, - 1, - 1], pos_idx = [],
            pos_predicted_boxes = [], target_boxes = []\<rparr>
   \<and> assign example_assigner [] [] [box_a] (Some [7])
     = Inr \<lparr>num_gts = 1, gt_inds = [], max_overlaps = None, labels = Some [],
            pos_idx = [], pos_predicted_boxes = [], target_boxes = []\<rparr>"
  using C4_degenerate_inputs[where self = example_assigner
          and bbox_pred = "[box_a, box_b, box_far]" and anchor = "[box_a, box_b, box_far]"
          and lbl = "Some []" and gts = "[]"]
        C4_degenerate_inputs[where self = example_assigner and bbox_pred = "[]"
          and anchor = "[]" and lbl = "Some [7]" and gts = "[box_a]"]
  by (simp add: numeral_3_eq_3)

text \<open>
  Claim C8. With \<open>match_times = 4\<close> and two ground truths, a call that returns has
  considered exactly 16 entries: \<open>indexes\<close>, \<open>pos_idx\<close>, \<open>pos_predicted_boxes\<close> and
  \<open>target_boxes\<close> all have length 16. The entries are, rank by rank, the matches of the two
  ground truths among the decoded predictions followed by their matches among the raw
  anchors, and the matches of a ground truth are four distinct candidates such that no
  other candidate is closer to it in L1 distance of the center-size forms.
\<close>

theorem C8_sixteen_entries:
  assumes a: "assign self bbox_pred anchor gts lbl = Inr r"
      and mt: "match_times self = 4" and G: "length gts = 2" and bp: "bbox_pred \<noteq> []"
  shows "\<exists>idx. selected_indexes self bbox_pred anchor gts = Inr idx
     \<and> length idx = 16 \<and> length (pos_idx r) = 16
     \<and> length (pos_predicted_boxes r) = 16 \<and> length (target_boxes r) = 16
     \<and> idx = concat (map (\<lambda>k. [nearest self bbox_pred gts 0 ! k, nearest self bbox_pred gts 1 ! k,
                               nearest self anchor gts 0 ! k, nearest self anchor gts 1 ! k])
                         [0..<4])
     \<and> (\<forall>g < 2. \<forall>boxes \<in> {bbox_pred, anchor}.
           length (nearest self boxes gts g) = 4 \<and> distinct (nearest self boxes gts g)
         \<and> (\<forall>i \<in> set (nearest self boxes gts g). i < length boxes
              \<and> (\<forall>j < length boxes. j \<notin> set (nearest self boxes gts g) \<longrightarrow>
                    l1_dist (bbox_xyxy_to_cxcywh (boxes ! i)) (bbox_xyxy_to_cxcywh (gts ! g))
                      \<le> l1_dist (bbox_xyxy_to_cxcywh (boxes ! j))
                           (bbox_xyxy_to_cxcywh (gts ! g)))))"
proof -
  have gts: "gts \<noteq> []" using G by auto
  from assign_nondegenerate[OF a gts bp] obtain idx where
    sel: "selected_indexes self bbox_pred anchor gts = Inr idx"
    and ppb: "gather bbox_pred idx = Inr (pos_predicted_boxes r)"
    and tb: "gather gts (pos_gt_index self (length gts)) = Inr (target_boxes r)" by blast
  have l: "length idx = 16" using selected_indexes_length[OF sel] mt G by simp
  have l1: "length (pos_idx r) = 16" using assign_pos_idx(1)[OF a gts bp sel] l by simp
  have l2: "length (pos_predicted_boxes r) = 16" using gather_Inr_length[OF ppb] l by simp
  have l3: "length (target_boxes r) = 16"
    using gather_Inr_length[OF tb] mt G by (simp add: pos_gt_index_length)
  have two: "[0..<2] = [0, 1]" by (simp add: upt_rec numeral_2_eq_2)
  have shape: "idx = concat (map (\<lambda>k. [nearest self bbox_pred gts 0 ! k,
                               nearest self bbox_pred gts 1 ! k,
                               nearest self anchor gts 0 ! k, nearest self anchor gts 1 ! k])
                         [0..<4])"
    using selected_indexes_Inr(3)[OF sel] mt G two by simp
  have near: "\<forall>g < 2. \<forall>boxes \<in> {bbox_pred, anchor}.
           length (nearest self boxes gts g) = 4 \<and> distinct (nearest self boxes gts g)
         \<and> (\<forall>i \<in> set (nearest self boxes gts g). i < length boxes
              \<and> (\<forall>j < length boxes. j \<notin> set (nearest self boxes gts g) \<longrightarrow>
                    l1_dist (bbox_xyxy_to_cxcywh (boxes ! i)) (bbox_xyxy_to_cxcywh (gts ! g))
                      \<le> l1_dist (bbox_xyxy_to_cxcywh (boxes ! j))
                           (bbox_xyxy_to_cxcywh (gts ! g))))"
  proof (intro allI impI ballI conjI)
    fix g :: nat and boxes assume g: "g < 2" and b: "boxes \<in> {bbox_pred, anchor}"
    have "match_times self \<le> length boxes"
      using b selected_indexes_Inr(1,2)[OF sel] by auto
    then show "length (nearest self boxes gts g) = 4"
      using nearest_length[of self boxes gts g] mt by simp
    show "distinct (nearest self boxes gts g)" by (rule nearest_distinct)
    fix i assume i: "i \<in> set (nearest self boxes gts g)"
    show "i < length boxes" by (rule nearest_range[OF i])
    fix j assume "j < length boxes" "j \<notin> set (nearest self boxes gts g)"
    then show "l1_dist (bbox_xyxy_to_cxcywh (boxes ! i)) (bbox_xyxy_to_cxcywh (gts ! g))
                 \<le> l1_dist (bbox_xyxy_to_cxcywh (boxes ! j)) (bbox_xyxy_to_cxcywh (gts ! g))"
      using nearest_is_nearest[OF i] g G by simp
  qed
  from sel l l1 l2 l3 shape near show ?thesis by blast
qed

theorem C8_sixteen_entries_witness:
  "map_sum id gt_inds
      (assign example_assigner4 example_preds4 example_anchors4 [box_a, box_b] (Some [3, 5]))
     = Inr [2, 1, - 1, 1]
   \<and> match_times example_assigner4 = 4 \<and> length [box_a, box_b] = 2 \<and> example_preds4 \<noteq> []
   \<and> (\<exists>idx. selected_indexes example_assigner4 example_preds4 example_anchors4 [box_a, box_b]
               = Inr idx \<and> length idx = 16)"
proof -
  have "\<exists>r. assign example_assigner4 example_preds4 example_anchors4 [box_a, box_b] (Some [3, 5])
               = Inr r"
    by (rule assign_total)
       (simp_all add: example_assigner4_def example_preds4_def example_anchors4_def)
  then obtain r where
    a: "assign example_assigner4 example_preds4 example_anchors4 [box_a, box_b] (Some [3, 5])
          = Inr r" ..
  have mt: "match_times example_assigner4 = 4" by (simp add: example_assigner4_def)
  have G: "length [box_a, box_b] = 2" by simp
  have bp: "example_preds4 \<noteq> []" by (simp add: example_preds4_def)
  from C8_sixteen_entries[OF a mt G bp] have
    "\<exists>idx. selected_indexes example_assigner4 example_preds4 example_anchors4 [box_a, box_b]
               = Inr idx \<and> length idx = 16" by blast
  moreover have "map_sum id gt_inds
      (assign example_assigner4 example_preds4 example_anchors4 [box_a, box_b] (Some [3, 5]))
     = Inr [2, 1, - 1, 1]" by code_simp
  ultimately show ?thesis using mt G bp by blast
qed

lemma assign_max_overlaps_per_gt:
  assumes "assign self bbox_pred anchor gts lbl = Inr r" and "gts \<noteq> []" and "bbox_pred \<noteq> []"
  shows "\<exists>m. max_overlaps r = Some m \<and> length m = length gts"
proof -
  from assign_nondegenerate[OF assms] obtain amo where
    "sequence_sum (map (\<lambda>g. line_max (column (overlaps (iou_calculator self) anchor gts) g))
                         [0..<length gts]) = Inr amo" "max_overlaps r = Some amo" by blast
  with sequence_sum_map_Inr[OF this(1)] show ?thesis by simp
qed

text \<open>
  Claim C9 does not hold of the code. The vector handed to \<open>AssignResult\<close> as
  \<open>max_overlaps\<close> is \<open>anchor_max_overlaps\<close>, the maximum over the anchors for every ground
  truth, so it has one entry per ground truth. With three candidates and one ground truth
  \<open>gt_inds\<close> has three entries and \<open>max_overlaps\<close> one.
\<close>

theorem C9_max_overlaps_is_per_ground_truth:
  "map_sum id (\<lambda>r. (length (gt_inds r), max_overlaps r))
     (assign example_assigner [box_a, box_b, box_far] [box_a, box_b, box_far] [box_a] None)
     = Inr (3, Some [1])"
  by code_simp

section \<open>Properties of AnchorGenerator\<close>

lemma concat_map_map_length:
  "length (concat (map (\<lambda>x. map (f x) ys) xs)) = length xs * length ys"
  by (induction xs) auto

lemma gen_single_level_base_anchors_length:
  "length (gen_single_level_base_anchors co sm bsz scs rts center) = length rts * length scs"
  unfolding gen_single_level_base_anchors_def Let_def
  by (cases sm)
     (simp_all add: length_concat comp_def sum_list_triv mult.commute
        split: prod.splits option.splits)

lemma gen_base_anchors_Inr:
  "gen_base_anchors co sm scs rts cs i bs = Inr ba \<Longrightarrow>
     length ba = length bs \<and> (\<forall>b \<in> set ba. length b = length rts * length scs)"
proof (induction bs arbitrary: i ba)
  case Nil
  then show ?case by simp
next
  case (Cons b bs)
  then obtain center others where
    o: "gen_base_anchors co sm scs rts cs (Suc i) bs = Inr others"
       "ba = gen_single_level_base_anchors co sm b scs rts center # others"
    by (auto split: sum.splits)
  from Cons.IH[OF o(1)] o(2) show ?case
    by (simp add: gen_single_level_base_anchors_length)
qed

lemma gen_base_anchors_total:
  assumes "case cs of None \<Rightarrow> True | Some l \<Rightarrow> i + length bs \<le> length l"
  shows "\<exists>ba. gen_base_anchors co sm scs rts cs i bs = Inr ba"
  using assms
proof (induction bs arbitrary: i)
  case Nil
  then show ?case by simp
next
  case (Cons b bs)
  have "case cs of None \<Rightarrow> True | Some l \<Rightarrow> Suc i + length bs \<le> length l"
    using Cons.prems by (simp split: option.splits)
  from Cons.IH[OF this] obtain others where
    "gen_base_anchors co sm scs rts cs (Suc i) bs = Inr others" ..
  moreover have "\<exists>c. (case cs of None \<Rightarrow> Inr None
                     | Some l \<Rightarrow> map_sum id Some (py_index l (int i))) = Inr c"
    using Cons.prems by (auto simp: py_index_def split: option.splits)
  ultimately show ?case by auto
qed

lemma gen_base_anchors_short_centers:
  assumes "cs = Some l" and "length l < i + length bs" and "i \<le> length l"
  shows "\<exists>e. gen_base_anchors co sm scs rts cs i bs = Inl e"
  using assms(2,3)
proof (induction bs arbitrary: i)
  case Nil
  then show ?case by simp
next
  case (Cons b bs)
  show ?case
  proof (cases "i < length l")
    case True
    with Cons.prems have "length l < Suc i + length bs" "Suc i \<le> length l" by simp_all
    from Cons.IH[OF this] obtain e where
      "gen_base_anchors co sm scs rts cs (Suc i) bs = Inl e" ..
    then show ?thesis using assms(1) by (simp split: sum.splits)
  next
    case False
    then have "py_index l (int i) = Inl IndexError" by (simp add: py_index_def)
    then show ?thesis using assms(1) by simp
  qed
qed

lemma anchor_generator_init_Inr:
  assumes "anchor_generator_init a = Inr g"
  shows "length (base_anchors g) = length (strides g)"
    and "\<forall>b \<in> set (base_anchors g). length b = length (ratios g) * length (scales g)"
    and "strides g = arg_strides a" and "ratios g = arg_ratios a"
    and "\<forall>l. arg_scales a = Some l \<longrightarrow> scales g = l"
    and "\<forall>spo. arg_scales a = None \<and> arg_scales_per_octave a = Some spo
            \<longrightarrow> length (scales g) = nat spo"
proof -
  from assms obtain scs ba where
    ba: "gen_base_anchors (arg_center_offset a) (arg_scale_major a) scs (arg_ratios a)
           (arg_centers a) 0
           (case arg_base_sizes a of None \<Rightarrow> arg_strides a | Some l \<Rightarrow> l) = Inr ba"
    and l: "length (case arg_base_sizes a of None \<Rightarrow> arg_strides a | Some l \<Rightarrow> l)
             = length (arg_strides a)"
    and g: "strides g = arg_strides a" "ratios g = arg_ratios a" "scales g = scs"
           "base_anchors g = ba"
    and sc: "\<forall>l. arg_scales a = Some l \<longrightarrow> scs = l"
            "\<forall>spo. arg_scales a = None \<and> arg_scales_per_octave a = Some spo
               \<longrightarrow> length scs = nat spo"
    unfolding anchor_generator_init_def Let_def
    by (auto split: if_splits sum.splits option.splits)
  from gen_base_anchors_Inr[OF ba] l g sc
  show "length (base_anchors g) = length (strides g)"
    and "\<forall>b \<in> set (base_anchors g). length b = length (ratios g) * length (scales g)"
    and "strides g = arg_strides a" and "ratios g = arg_ratios a"
    and "\<forall>l. arg_scales a = Some l \<longrightarrow> scales g = l"
    and "\<forall>spo. arg_scales a = None \<and> arg_scales_per_octave a = Some spo
            \<longrightarrow> length (scales g) = nat spo"
    by simp_all
qed

lemma meshgrid_nth:
  assumes "y < length ys" and "x < length xs"
  shows "fst (meshgrid xs ys) ! (y * length xs + x) = xs ! x"
    and "snd (meshgrid xs ys) ! (y * length xs + x) = ys ! y"
    and "length (fst (meshgrid xs ys)) = length ys * length xs"
    and "length (snd (meshgrid xs ys)) = length ys * length xs"
proof -
  have "concat (replicate (length ys) xs) ! (y * length xs + x)
          = replicate (length ys) xs ! y ! x"
    using assms by (intro concat_uniform_nth) auto
  then show "fst (meshgrid xs ys) ! (y * length xs + x) = xs ! x"
    using assms by (simp add: meshgrid_def)
  have "concat (map (\<lambda>v. replicate (length xs) v) ys) ! (y * length xs + x)
          = map (\<lambda>v. replicate (length xs) v) ys ! y ! x"
    using assms by (intro concat_uniform_nth) auto
  then show "snd (meshgrid xs ys) ! (y * length xs + x) = ys ! y"
    using assms by (simp add: meshgrid_def)
  show "length (fst (meshgrid xs ys)) = length ys * length xs"
    by (simp add: meshgrid_def length_concat sum_list_replicate)
  show "length (snd (meshgrid xs ys)) = length ys * length xs"
    by (simp add: meshgrid_def length_concat comp_def sum_list_triv)
qed

lemma meshgrid_lengths:
  "length (fst (meshgrid xs ys)) = length ys * length xs"
  "length (snd (meshgrid xs ys)) = length ys * length xs"
  by (simp_all add: meshgrid_def length_concat comp_def sum_list_triv sum_list_replicate)

lemma single_level_grid_anchors_length:
  "length (single_level_grid_anchors base (feat_h, feat_w) stride)
     = feat_h * feat_w * length base"
  unfolding single_level_grid_anchors_def Let_def
  by (simp add: length_concat comp_def sum_list_triv meshgrid_lengths case_prod_beta)

lemma single_level_grid_anchors_nth:
  assumes y: "y < feat_h" and x: "x < feat_w" and a: "a < length base"
  shows "single_level_grid_anchors base (feat_h, feat_w) stride
            ! ((y * feat_w + x) * length base + a)
           = shift_box (base ! a) (real_of_int (int x * stride), real_of_int (int y * stride))"
proof -
  let ?sx = "map (\<lambda>i. int i * stride) [0..<feat_w]"
  let ?sy = "map (\<lambda>i. int i * stride) [0..<feat_h]"
  let ?xx = "fst (meshgrid ?sx ?sy)" and ?yy = "snd (meshgrid ?sx ?sy)"
  let ?shifts = "map (\<lambda>(sx, sy). (real_of_int sx, real_of_int sy)) (zip ?xx ?yy)"
  let ?k = "y * feat_w + x"
  have k: "?k < feat_h * feat_w"
  proof -
    have "y * feat_w + x < y * feat_w + feat_w" using x by simp
    also have "\<dots> = Suc y * feat_w" by simp
    also have "\<dots> \<le> feat_h * feat_w" using y by (intro mult_le_mono1) simp
    finally show ?thesis .
  qed
  have lx: "length ?xx = feat_h * feat_w" and ly: "length ?yy = feat_h * feat_w"
    by (simp_all add: meshgrid_lengths)
  have xk: "?xx ! ?k = int x * stride" and yk: "?yy ! ?k = int y * stride"
    using meshgrid_nth(1,2)[of y ?sy x ?sx] x y by simp_all
  have sk: "?shifts ! ?k = (real_of_int (int x * stride), real_of_int (int y * stride))"
    using k lx ly xk yk by simp
  have ls: "length ?shifts = feat_h * feat_w" using lx ly by simp
  have "concat (map (\<lambda>s. map (\<lambda>b. shift_box b s) base) ?shifts) ! (?k * length base + a)
          = map (\<lambda>s. map (\<lambda>b. shift_box b s) base) ?shifts ! ?k ! a"
    using k ls a by (intro concat_uniform_nth) auto
  also have "\<dots> = shift_box (base ! a) (?shifts ! ?k)"
    using k ls a by simp
  finally show ?thesis
    unfolding single_level_grid_anchors_def Let_def using sk
    by (simp add: case_prod_beta)
qed

lemma sequence_sum_snoc:
  "sequence_sum xs = Inr ys \<Longrightarrow> sequence_sum (xs @ [Inr y]) = Inr (ys @ [y])"
  by (induction xs arbitrary: ys rule: sequence_sum.induct) (auto split: sum.splits)

lemma sequence_sum_upt:
  "\<forall>i < n. f i = Inr (h i) \<Longrightarrow> sequence_sum (map f [0..<n]) = Inr (map h [0..<n])"
proof (induction n)
  case 0
  then show ?case by simp
next
  case (Suc n)
  then have "sequence_sum (map f [0..<n]) = Inr (map h [0..<n])" "f n = Inr (h n)" by simp_all
  from sequence_sum_snoc[OF this(1), of "h n"] this(2) show ?case by simp
qed

lemma grid_anchors_returns:
  assumes g: "anchor_generator_init a = Inr g"
      and l: "length featmap_sizes = length (strides g)"
  shows "grid_anchors g featmap_sizes
           = Inr (map (\<lambda>i. single_level_grid_anchors (base_anchors g ! i) (featmap_sizes ! i)
                              (strides g ! i))
                      [0..<length featmap_sizes])"
proof -
  have lb: "length (base_anchors g) = length featmap_sizes"
    using anchor_generator_init_Inr(1)[OF g] l by simp
  have "sequence_sum
          (map (\<lambda>i. case py_index (base_anchors g) (int i) of
                          Inl e \<Rightarrow> Inl e
                        | Inr base \<Rightarrow>
                            Inr (single_level_grid_anchors base (featmap_sizes ! i)
                                   (strides g ! i)))
               [0..<length featmap_sizes])
        = Inr (map (\<lambda>i. single_level_grid_anchors (base_anchors g ! i) (featmap_sizes ! i)
                              (strides g ! i))
                      [0..<length featmap_sizes])"
    by (rule sequence_sum_upt) (simp add: py_index_def lb)
  then show ?thesis using l by (simp add: grid_anchors_def)
qed

lemma example_generator_built: "anchor_generator_init example_args = Inr example_generator"
  by (simp add: anchor_generator_init_def example_args_def example_generator_def
      gen_single_level_base_anchors_def Let_def)

text \<open>
  Claim C5. For a generator the constructor has built and one feature-map size per stride,
  \<open>grid_anchors\<close> returns. At every level the base-anchor set has as many boxes as there
  are ratios times scales (the scales given, or \<open>scales_per_octave\<close> many), the grid has
  \<open>height * width\<close> times as many, and the anchor of grid cell \<open>(y, x)\<close> and base anchor \<open>i\<close>
  sits at position \<open>(y * width + x) * A + i\<close>, being base anchor \<open>i\<close> moved by \<open>x\<close> strides
  to the right and \<open>y\<close> strides down.
\<close>

theorem C5_anchor_counts_and_order:
  assumes g: "anchor_generator_init a = Inr g"
      and l: "length featmap_sizes = length (strides g)"
      and lvl: "lvl < length featmap_sizes"
      and sz: "featmap_sizes ! lvl = (feat_h, feat_w)"
  shows "\<exists>grids. grid_anchors g featmap_sizes = Inr grids
       \<and> ratios g = arg_ratios a
       \<and> (\<forall>scs. arg_scales a = Some scs \<longrightarrow> scales g = scs)
       \<and> (\<forall>spo. arg_scales a = None \<and> arg_scales_per_octave a = Some spo
             \<longrightarrow> length (scales g) = nat spo)
       \<and> length (base_anchors g ! lvl) = length (ratios g) * length (scales g)
       \<and> length (grids ! lvl) = feat_h * feat_w * length (ratios g) * length (scales g)
       \<and> (\<forall>y < feat_h. \<forall>x < feat_w. \<forall>i < length (base_anchors g ! lvl).
             grids ! lvl ! ((y * feat_w + x) * length (base_anchors g ! lvl) + i)
               = shift_box (base_anchors g ! lvl ! i)
                   (real_of_int (int x * strides g ! lvl),
                    real_of_int (int y * strides g ! lvl)))"
proof -
  let ?grids = "map (\<lambda>i. single_level_grid_anchors (base_anchors g ! i) (featmap_sizes ! i)
                              (strides g ! i))
                 [0..<length featmap_sizes]"
  have r: "grid_anchors g featmap_sizes = Inr ?grids" by (rule grid_anchors_returns[OF g l])
  have lb: "lvl < length (base_anchors g)"
    using anchor_generator_init_Inr(1)[OF g] l lvl by simp
  then have A: "length (base_anchors g ! lvl) = length (ratios g) * length (scales g)"
    using anchor_generator_init_Inr(2)[OF g] by simp
  have m: "?grids ! lvl = single_level_grid_anchors (base_anchors g ! lvl) (feat_h, feat_w)
                         (strides g ! lvl)"
    using lvl sz by simp
  have len: "length (?grids ! lvl) = feat_h * feat_w * length (ratios g) * length (scales g)"
    unfolding m by (simp add: single_level_grid_anchors_length A)
  have pos: "\<forall>y < feat_h. \<forall>x < feat_w. \<forall>i < length (base_anchors g ! lvl).
             ?grids ! lvl ! ((y * feat_w + x) * length (base_anchors g ! lvl) + i)
               = shift_box (base_anchors g ! lvl ! i)
                   (real_of_int (int x * strides g ! lvl),
                    real_of_int (int y * strides g ! lvl))"
    unfolding m using single_level_grid_anchors_nth by blast
  from r A len pos anchor_generator_init_Inr(4,5,6)[OF g] show ?thesis by blast
qed

theorem C5_anchor_counts_and_order_witness:
  "anchor_generator_init example_args = Inr example_generator
   \<and> length [(2 :: nat, 2 :: nat)] = length (strides example_generator)
   \<and> (\<exists>grids. grid_anchors example_generator [(2, 2)] = Inr grids
          \<and> length (base_anchors example_generator ! 0) = 1
          \<and> length (grids ! 0) = 4
          \<and> grids ! 0 ! 1 = (11.5, - 4.5, 20.5, 4.5)
          \<and> grids ! 0 ! 2 = (- 4.5, 11.5, 4.5, 20.5))"
proof -
  have l: "length [(2 :: nat, 2 :: nat)] = length (strides example_generator)"
    by (simp add: example_generator_def)
  have lvl: "(0 :: nat) < length [(2 :: nat, 2 :: nat)]" by simp
  have sz: "[(2 :: nat, 2 :: nat)] ! 0 = (2, 2)" by simp
  from C5_anchor_counts_and_order[OF example_generator_built l lvl sz]
  obtain grids where grids: "grid_anchors example_generator [(2, 2)] = Inr grids"
    and A: "length (base_anchors example_generator ! 0)
              = length (ratios example_generator) * length (scales example_generator)"
    and len: "length (grids ! 0)
              = 2 * 2 * length (ratios example_generator) * length (scales example_generator)"
    and pos: "\<forall>y < 2. \<forall>x < 2. \<forall>i < length (base_anchors example_generator ! 0).
             grids ! 0 ! ((y * 2 + x) * length (base_anchors example_generator ! 0) + i)
               = shift_box (base_anchors example_generator ! 0 ! i)
                   (real_of_int (int x * strides example_generator ! 0),
                    real_of_int (int y * strides example_generator ! 0))"
    by blast
  have "grids ! 0 ! 1 = (11.5, - 4.5, 20.5, 4.5)"
    using pos[rule_format, of 0 1 0] by (simp add: example_generator_def shift_box_def)
  moreover have "grids ! 0 ! 2 = (- 4.5, 11.5, 4.5, 20.5)"
    using pos[rule_format, of 1 0 0] by (simp add: example_generator_def shift_box_def)
  moreover have "length (base_anchors example_generator ! 0) = 1" "length (grids ! 0) = 4"
    using A len by (simp_all add: example_generator_def)
  ultimately show ?thesis using example_generator_built l grids by blast
qed

text \<open>
  Claim C6, as the code has it. The constructor succeeds exactly when \<open>center_offset\<close> lies
  in \<open>[0, 1]\<close>, exactly one of \<open>scales\<close> and the pair
  \<open>(octave_base_scale, scales_per_octave)\<close> is given, no centers are given together with a
  nonzero \<open>center_offset\<close>, the base sizes, when given, are as many as the strides, and the
  centers, when given, are at least as many as the strides. In every other case it raises.
\<close>

theorem C6_constructor_succeeds_iff:
  "(\<exists>g. anchor_generator_init a = Inr g) =
     (claimed_valid a
      \<and> (arg_center_offset a \<noteq> 0 \<longrightarrow> arg_centers a = None)
      \<and> (\<forall>l. arg_base_sizes a = Some l \<longrightarrow> length l = length (arg_strides a))
      \<and> (\<forall>cs. arg_centers a = Some cs \<longrightarrow> length (arg_strides a) \<le> length cs))"
proof
  assume "\<exists>g. anchor_generator_init a = Inr g"
  then obtain g where g: "anchor_generator_init a = Inr g" ..
  let ?bs = "case arg_base_sizes a of None \<Rightarrow> arg_strides a | Some l \<Rightarrow> l"
  from g obtain scs ba where
    c1: "arg_center_offset a \<noteq> 0 \<longrightarrow> arg_centers a = None"
    and c2: "0 \<le> arg_center_offset a \<and> arg_center_offset a \<le> 1"
    and c3: "length ?bs = length (arg_strides a)"
    and c4: "(arg_octave_base_scale a \<noteq> None \<and> arg_scales_per_octave a \<noteq> None)
               \<noteq> (arg_scales a \<noteq> None)"
    and ba: "gen_base_anchors (arg_center_offset a) (arg_scale_major a) scs (arg_ratios a)
               (arg_centers a) 0 ?bs = Inr ba"
    unfolding anchor_generator_init_def Let_def
    by (auto split: if_splits sum.splits)
  have c5: "\<forall>cs. arg_centers a = Some cs \<longrightarrow> length (arg_strides a) \<le> length cs"
  proof (intro allI impI, rule ccontr)
    fix cs assume cs: "arg_centers a = Some cs" and "\<not> length (arg_strides a) \<le> length cs"
    then have "length cs < 0 + length ?bs" using c3 by simp
    from gen_base_anchors_short_centers[OF cs this, of "arg_center_offset a"
        "arg_scale_major a" scs "arg_ratios a"] ba
    show False by simp
  qed
  from c1 c2 c3 c4 c5 show "claimed_valid a
      \<and> (arg_center_offset a \<noteq> 0 \<longrightarrow> arg_centers a = None)
      \<and> (\<forall>l. arg_base_sizes a = Some l \<longrightarrow> length l = length (arg_strides a))
      \<and> (\<forall>cs. arg_centers a = Some cs \<longrightarrow> length (arg_strides a) \<le> length cs)"
    by (auto simp: claimed_valid_def)
next
  let ?bs = "case arg_base_sizes a of None \<Rightarrow> arg_strides a | Some l \<Rightarrow> l"
  assume h: "claimed_valid a
      \<and> (arg_center_offset a \<noteq> 0 \<longrightarrow> arg_centers a = None)
      \<and> (\<forall>l. arg_base_sizes a = Some l \<longrightarrow> length l = length (arg_strides a))
      \<and> (\<forall>cs. arg_centers a = Some cs \<longrightarrow> length (arg_strides a) \<le> length cs)"
  then have c3: "length ?bs = length (arg_strides a)" by (auto split: option.splits)
  have "\<exists>scs. (case arg_scales a of
                  Some l \<Rightarrow> Inr l
                | None \<Rightarrow>
                    (case (arg_octave_base_scale a, arg_scales_per_octave a) of
                       (Some obs, Some spo) \<Rightarrow>
                          Inr (map (\<lambda>i. 2 powr (real i / real_of_int spo) * real_of_int obs)
                                   [0..<nat spo])
                     | _ \<Rightarrow> Inl ValueError)) = Inr scs"
    using h by (auto simp: claimed_valid_def split: option.splits)
  then obtain scs where scs: "(case arg_scales a of
                  Some l \<Rightarrow> Inr l
                | None \<Rightarrow>
                    (case (arg_octave_base_scale a, arg_scales_per_octave a) of
                       (Some obs, Some spo) \<Rightarrow>
                          Inr (map (\<lambda>i. 2 powr (real i / real_of_int spo) * real_of_int obs)
                                   [0..<nat spo])
                     | _ \<Rightarrow> Inl ValueError)) = Inr scs" ..
  have "case arg_centers a of None \<Rightarrow> True | Some l \<Rightarrow> 0 + length ?bs \<le> length l"
    using h c3 by (auto split: option.splits)
  from gen_base_anchors_total[OF this] obtain ba where
    "gen_base_anchors (arg_center_offset a) (arg_scale_major a) scs (arg_ratios a)
               (arg_centers a) 0 ?bs = Inr ba" by blast
  with h c3 scs show "\<exists>g. anchor_generator_init a = Inr g"
    unfolding anchor_generator_init_def Let_def claimed_valid_def by auto
qed

theorem C6_constructor_succeeds_iff_witness:
  "claimed_valid example_args \<and> arg_centers example_args = None
   \<and> arg_base_sizes example_args = Some [9] \<and> length (arg_strides example_args) = 1
   \<and> (\<exists>g. anchor_generator_init example_args = Inr g)"
  using C6_constructor_succeeds_iff[of example_args]
  by (simp add: example_args_def claimed_valid_def)

text \<open>
  Claim C6 as stated makes the two conditions of \<open>claimed_valid\<close> the only ones. A
  configuration that meets both and gives centers together with a center offset of \<open>0.5\<close>
  is rejected, and so is one that gives two base sizes for one stride.
\<close>

theorem C6_valid_yet_rejected_counterexample:
  "claimed_valid example_args_centers
   \<and> anchor_generator_init example_args_centers = Inl AssertionError
   \<and> claimed_valid example_args_sizes
   \<and> anchor_generator_init example_args_sizes = Inl AssertionError"
  by (simp add: claimed_valid_def example_args_centers_def example_args_sizes_def
      example_args_def anchor_generator_init_def)

section \<open>Properties of the SOLO targets\<close>

lemma set_block_nth:
  assumes "r < length lab" and "c < length (lab ! r)"
  shows "set_block lab r0 r1 c0 c1 v ! r ! c
           = (if slice_bound (length lab) r0 \<le> r \<and> r < slice_bound (length lab) r1
                 \<and> slice_bound (length (lab ! r)) c0 \<le> c
                 \<and> c < slice_bound (length (lab ! r)) c1
              then v else lab ! r ! c)"
  using assms by (simp add: set_block_def nth_enumerate_eq)

lemma set_block_length: "length (set_block lab r0 r1 c0 c1 v) = length lab"
  by (simp add: set_block_def)

lemma slice_bound_lower:
  "0 \<le> i \<Longrightarrow> r < n \<Longrightarrow> slice_bound n i \<le> r \<Longrightarrow> i \<le> int r"
  by (auto simp: slice_bound_def split: if_splits)

lemma slice_bound_upper:
  "0 \<le> i \<Longrightarrow> r < slice_bound n i \<Longrightarrow> int r < i"
  by (auto simp: slice_bound_def split: if_splits)

lemma write_cell_Inr:
  assumes "write_cell n m ij t = Inr t'"
  shows "level_labels t' = level_labels t"
    and "length (pos_mask t') = length (pos_mask t)"
    and "length (mask_target t') = length (mask_target t)"
    and "0 \<le> fst ij * int n + snd ij \<Longrightarrow>
           pos_mask t' = (pos_mask t)[nat (fst ij * int n + snd ij) := True]"
  using assms
  by (auto simp: write_cell_def Let_def split: prod.splits sum.splits)

lemma fold_write_cell_labels:
  "fold_sum (write_cell n m) cs t = Inr t' \<Longrightarrow> level_labels t' = level_labels t"
proof (induction cs arbitrary: t)
  case Nil
  then show ?case by simp
next
  case (Cons ij cs)
  then obtain t1 where t1: "write_cell n m ij t = Inr t1" "fold_sum (write_cell n m) cs t1 = Inr t'"
    by (auto split: sum.splits)
  from Cons.IH[OF t1(2)] write_cell_Inr(1)[OF t1(1)] show ?case by simp
qed

lemma fold_write_cell_pos_mask:
  assumes "fold_sum (write_cell n m) cs t = Inr t'"
      and "\<forall>ij \<in> set cs. 0 \<le> fst ij * int n + snd ij"
      and "k < length (pos_mask t)" and "pos_mask t' ! k"
  shows "pos_mask t ! k \<or> (\<exists>ij \<in> set cs. k = nat (fst ij * int n + snd ij))"
  using assms
proof (induction cs arbitrary: t)
  case Nil
  then show ?case by simp
next
  case (Cons ij cs)
  then obtain t1 where t1: "write_cell n m ij t = Inr t1" "fold_sum (write_cell n m) cs t1 = Inr t'"
    by (auto split: sum.splits)
  have pm: "pos_mask t1 = (pos_mask t)[nat (fst ij * int n + snd ij) := True]"
    using write_cell_Inr(4)[OF t1(1)] Cons.prems(2) by simp
  have "pos_mask t1 ! k \<or> (\<exists>ij \<in> set cs. k = nat (fst ij * int n + snd ij))"
    using Cons.IH[OF t1(2)] Cons.prems(2,3,4) pm by simp
  then show ?case
    using pm Cons.prems(3) by (auto simp: nth_list_update split: if_splits)
qed

lemma center_of_mass_nonneg: "0 \<le> fst (center_of_mass m)" "0 \<le> snd (center_of_mass m)"
  by (simp_all add: center_of_mass_def Let_def)

lemma grid_cell_nonneg: "0 \<le> v \<Longrightarrow> 0 \<le> grid_cell v u n"
  by (simp add: grid_cell_def)

text \<open>For an instance with nonnegative ranges the lower and upper corners of the region
  are not negative, so no slice bound counts from the end.\<close>

lemma region_bounds:
  assumes "0 \<le> ph" and "0 \<le> pw" and "0 < n"
  shows "0 \<le> top_row (region_of n u m ph pw)" and "0 \<le> left (region_of n u m ph pw)"
    and "0 \<le> down (region_of n u m ph pw)" and "0 \<le> right (region_of n u m ph pw)"
    and "down (region_of n u m ph pw) < int n" and "right (region_of n u m ph pw) < int n"
proof -
  obtain ch cw where c: "center_of_mass m = (ch, cw)" by (cases "center_of_mass m")
  with center_of_mass_nonneg[of m] have nn: "0 \<le> ch" "0 \<le> cw" by simp_all
  have a: "0 \<le> grid_cell ch (fst u) n" "0 \<le> grid_cell cw (snd u) n"
          "0 \<le> grid_cell (ch + ph) (fst u) n" "0 \<le> grid_cell (cw + pw) (snd u) n"
    using nn assms(1,2) by (simp_all add: grid_cell_nonneg)
  show "0 \<le> top_row (region_of n u m ph pw)" "0 \<le> left (region_of n u m ph pw)"
    by (simp_all add: top_row_def left_def region_of_def c)
  show "0 \<le> down (region_of n u m ph pw)" "0 \<le> right (region_of n u m ph pw)"
    using a assms(3) by (simp_all add: down_def right_def region_of_def c)
  show "down (region_of n u m ph pw) < int n" "right (region_of n u m ph pw) < int n"
    by (simp_all add: down_def right_def region_of_def c)
qed

lemma cells_iff:
  "(i, j) \<in> set (cells rg) = (top_row rg \<le> i \<and> i \<le> down rg \<and> left rg \<le> j \<and> j \<le> right rg)"
  by (auto simp: cells_def image_iff)

lemma in_region_neighbourhood:
  assumes "top_row rg \<le> i" and "i \<le> down rg" and "left rg \<le> j" and "j \<le> right rg"
  shows "coord_h rg - 1 \<le> i \<and> i \<le> coord_h rg + 1
       \<and> coord_w rg - 1 \<le> j \<and> j \<le> coord_w rg + 1
       \<and> top_box rg \<le> i \<and> i \<le> down_box rg
       \<and> left_box rg \<le> j \<and> j \<le> right_box rg"
  using assms by (simp add: top_row_def down_def left_def right_def)

lemma gather_single: "gather xs [k] = Inr ys \<Longrightarrow> k < length xs \<and> ys = [xs ! k]"
  by (auto simp: gather_def split: if_splits)

lemma cell_index_unique:
  assumes "int r * int n + int c = i * int n + j" and "c < n" and "0 \<le> j" and "j < int n"
  shows "i = int r \<and> j = int c"
proof -
  have n: "0 < int n" using assms(2) by simp
  have "(int r * int n + int c) div int n = int r" using assms(2) n by simp
  moreover have "(i * int n + j) div int n = i" using assms(3,4) n by simp
  ultimately have i: "i = int r" using assms(1) by simp
  with assms(1) show ?thesis by simp
qed

text \<open>A level with exactly one ground truth in its scale range has run the loop body once,
  on the empty targets.\<close>

lemma level_single_hit:
  assumes lt: "level_targets_of self rescale gt_bboxes gt_labels gt_masks featmap_sizes
                 (rng, stride, fsz, n) = Inr t"
      and single: "hit_inds rng gt_bboxes = [k]"
      and box: "gt_bboxes ! k = (x1, y1, x2, y2)"
  shows "process_instance rescale n stride
           (fst (featmap_sizes ! 0) * 4, snd (featmap_sizes ! 0) * 4)
           (gt_masks ! k, gt_labels ! k, 0.5 * (y2 - y1) * pos_scale self,
            0.5 * (x2 - x1) * pos_scale self, sum_list (map sum_list (gt_masks ! k)) > 0)
           (empty_targets n fsz (num_classes self)) = Inr t"
proof -
  from lt single obtain hb hl hm where
    g: "gather gt_bboxes [k] = Inr hb" "gather gt_labels [k] = Inr hl"
       "gather gt_masks [k] = Inr hm"
    unfolding level_targets_of_def Let_def by (auto split: sum.splits)
  from gather_single[OF g(1)] gather_single[OF g(2)] gather_single[OF g(3)]
  have h: "hb = [gt_bboxes ! k]" "hl = [gt_labels ! k]" "hm = [gt_masks ! k]" by simp_all
  from lt single g h box show ?thesis
    unfolding level_targets_of_def Let_def by (simp split: sum.splits)
qed

lemma process_instance_Inr:
  assumes "process_instance rescale n stride u (m, l, ph, pw, valid) t0 = Inr t"
  shows "(\<not> valid \<and> t = t0)
       \<or> (valid \<and> 0 < n
          \<and> fold_sum (write_cell n (rescale m (1 / (real_of_int stride / 2))))
               (cells (region_of n u m ph pw))
               (t0\<lparr>level_labels :=
                     set_block (level_labels t0) (top_row (region_of n u m ph pw))
                       (down (region_of n u m ph pw) + 1) (left (region_of n u m ph pw))
                       (right (region_of n u m ph pw) + 1) l\<rparr>) = Inr t)"
  using assms unfolding process_instance_def Let_def
  by (auto split: if_splits)

lemma single_instance_positive_cells:
  assumes lt: "level_targets_of self rescale gt_bboxes gt_labels gt_masks featmap_sizes
                 (rng, stride, fsz, n) = Inr t"
      and single: "hit_inds rng gt_bboxes = [k]"
      and box: "gt_bboxes ! k = (x1, y1, x2, y2)"
      and wf: "x1 \<le> x2" "y1 \<le> y2" "0 \<le> pos_scale self"
      and rc: "r < n" "c < n"
      and positive: "level_labels t ! r ! c \<noteq> num_classes self \<or> pos_mask t ! (r * n + c)"
  shows "top_row (region_of n (fst (featmap_sizes ! 0) * 4, snd (featmap_sizes ! 0) * 4)
                   (gt_masks ! k) (0.5 * (y2 - y1) * pos_scale self)
                   (0.5 * (x2 - x1) * pos_scale self)) \<le> int r
       \<and> int r \<le> down (region_of n (fst (featmap_sizes ! 0) * 4, snd (featmap_sizes ! 0) * 4)
                   (gt_masks ! k) (0.5 * (y2 - y1) * pos_scale self)
                   (0.5 * (x2 - x1) * pos_scale self))
       \<and> left (region_of n (fst (featmap_sizes ! 0) * 4, snd (featmap_sizes ! 0) * 4)
                   (gt_masks ! k) (0.5 * (y2 - y1) * pos_scale self)
                   (0.5 * (x2 - x1) * pos_scale self)) \<le> int c
       \<and> int c \<le> right (region_of n (fst (featmap_sizes ! 0) * 4, snd (featmap_sizes ! 0) * 4)
                   (gt_masks ! k) (0.5 * (y2 - y1) * pos_scale self)
                   (0.5 * (x2 - x1) * pos_scale self))"
proof -
  let ?u = "(fst (featmap_sizes ! 0) * 4, snd (featmap_sizes ! 0) * 4)"
  let ?ph = "0.5 * (y2 - y1) * pos_scale self" and ?pw = "0.5 * (x2 - x1) * pos_scale self"
  let ?rg = "region_of n ?u (gt_masks ! k) ?ph ?pw"
  let ?t0 = "empty_targets n fsz (num_classes self)"
  have ph: "0 \<le> ?ph" and pw: "0 \<le> ?pw" using wf by simp_all
  have n: "0 < n" using rc by simp
  note b = region_bounds[OF ph pw n, of ?u "gt_masks ! k"]
  have kk: "r * n + c < n * n"
  proof -
    have "r * n + c < r * n + n" using rc by simp
    also have "\<dots> = Suc r * n" by simp
    also have "\<dots> \<le> n * n" using rc by (intro mult_le_mono1) simp
    finally show ?thesis .
  qed
  from process_instance_Inr[OF level_single_hit[OF lt single box]]
  show ?thesis
  proof
    assume "\<not> 0 < sum_list (map sum_list (gt_masks ! k)) \<and> t = ?t0"
    then have t: "t = ?t0" by simp
    have "level_labels ?t0 ! r ! c = num_classes self"
      using rc by (simp add: empty_targets_def)
    moreover have "\<not> pos_mask ?t0 ! (r * n + c)"
      using kk by (simp add: empty_targets_def power2_eq_square)
    ultimately have False using positive t by simp
    then show ?thesis ..
  next
    let ?t1 = "?t0\<lparr>level_labels :=
                     set_block (level_labels ?t0) (top_row ?rg) (down ?rg + 1) (left ?rg)
                       (right ?rg + 1) (gt_labels ! k)\<rparr>"
    assume "0 < sum_list (map sum_list (gt_masks ! k)) \<and> 0 < n
          \<and> fold_sum (write_cell n (rescale (gt_masks ! k) (1 / (real_of_int stride / 2))))
               (cells ?rg) ?t1 = Inr t"
    then have f: "fold_sum (write_cell n (rescale (gt_masks ! k) (1 / (real_of_int stride / 2))))
               (cells ?rg) ?t1 = Inr t" by simp
    from positive show ?thesis
    proof
      assume lab: "level_labels t ! r ! c \<noteq> num_classes self"
      have "level_labels t = set_block (level_labels ?t0) (top_row ?rg) (down ?rg + 1)
                               (left ?rg) (right ?rg + 1) (gt_labels ! k)"
        using fold_write_cell_labels[OF f] by simp
      with lab rc have s: "slice_bound n (top_row ?rg) \<le> r \<and> r < slice_bound n (down ?rg + 1)
                 \<and> slice_bound n (left ?rg) \<le> c \<and> c < slice_bound n (right ?rg + 1)"
        by (simp add: set_block_nth empty_targets_def split: if_splits)
      have "top_row ?rg \<le> int r"
        using slice_bound_lower[OF b(1) rc(1)] s by simp
      moreover have "left ?rg \<le> int c"
        using slice_bound_lower[OF b(2) rc(2)] s by simp
      moreover have "int r < down ?rg + 1"
        using slice_bound_upper[of "down ?rg + 1" r n] b(3) s by simp
      moreover have "int c < right ?rg + 1"
        using slice_bound_upper[of "right ?rg + 1" c n] b(4) s by simp
      ultimately show ?thesis by simp
    next
      assume pm: "pos_mask t ! (r * n + c)"
      have nonneg: "\<forall>ij \<in> set (cells ?rg). 0 \<le> fst ij * int n + snd ij"
      proof
        fix ij assume "ij \<in> set (cells ?rg)"
        then have "top_row ?rg \<le> fst ij" "left ?rg \<le> snd ij"
          using cells_iff[of "fst ij" "snd ij" ?rg] by simp_all
        with b(1,2) show "0 \<le> fst ij * int n + snd ij" by simp
      qed
      from kk have k: "r * n + c < length (pos_mask ?t1)"
        by (simp add: empty_targets_def power2_eq_square)
      from fold_write_cell_pos_mask[OF f nonneg k pm] k
      obtain ij where ij: "ij \<in> set (cells ?rg)" "r * n + c = nat (fst ij * int n + snd ij)"
        by (auto simp: empty_targets_def)
      from ij(1) have reg: "top_row ?rg \<le> fst ij" "fst ij \<le> down ?rg"
                           "left ?rg \<le> snd ij" "snd ij \<le> right ?rg"
        using cells_iff[of "fst ij" "snd ij" ?rg] by simp_all
      from ij(2) nonneg ij(1) have "int r * int n + int c = fst ij * int n + snd ij"
        by (metis int_nat_eq of_nat_add of_nat_mult)
      from cell_index_unique[OF this rc(2)] reg b
      have "fst ij = int r \<and> snd ij = int c" by simp
      with reg show ?thesis by simp
    qed
  qed
qed

lemma level_no_hit:
  assumes "hit_inds rng gt_bboxes = []"
  shows "level_targets_of self rescale gt_bboxes gt_labels gt_masks featmap_sizes
           (rng, stride, fsz, n) = Inr (empty_targets n fsz (num_classes self))"
  using assms by (simp add: level_targets_of_def Let_def)

lemma empty_targets_background:
  assumes "r < n" and "c < n"
  shows "level_labels (empty_targets n fsz nc) ! r ! c = nc"
    and "\<not> pos_mask (empty_targets n fsz nc) ! (r * n + c)"
    and "mask_target (empty_targets n fsz nc) ! (r * n + c)
           = replicate (fst fsz) (replicate (snd fsz) 0)"
proof -
  have k: "r * n + c < n * n"
  proof -
    have "r * n + c < r * n + n" using assms by simp
    also have "\<dots> = Suc r * n" by simp
    also have "\<dots> \<le> n * n" using assms by (intro mult_le_mono1) simp
    finally show ?thesis .
  qed
  show "level_labels (empty_targets n fsz nc) ! r ! c = nc"
    using assms by (simp add: empty_targets_def)
  show "\<not> pos_mask (empty_targets n fsz nc) ! (r * n + c)"
    using k by (simp add: empty_targets_def power2_eq_square)
  show "mask_target (empty_targets n fsz nc) ! (r * n + c)
           = replicate (fst fsz) (replicate (snd fsz) 0)"
    using k by (simp add: empty_targets_def power2_eq_square)
qed

text \<open>With at least one ground truth in the image and none in the scale range of any
  level, every level gets the empty targets.\<close>

lemma get_targets_single_no_hit:
  assumes "gt_labels \<noteq> []"
      and "\<forall>rng \<in> set (scale_ranges self). hit_inds rng gt_bboxes = []"
  shows "get_targets_single self rescale gt_bboxes gt_labels gt_masks featmap_sizes
           = Inr (map (\<lambda>(rng, stride, fsz, n). empty_targets n fsz (num_classes self))
                      (zip (scale_ranges self)
                         (zip (solo_strides self) (zip featmap_sizes (num_grids self)))))"
proof -
  let ?lv = "zip (scale_ranges self)
               (zip (solo_strides self) (zip featmap_sizes (num_grids self)))"
  have fl: "py_index gt_labels 0 = Inr (gt_labels ! 0)"
    using assms(1) by (simp add: py_index_def)
  have "\<And>xs. \<forall>l \<in> set xs. f l = Inr (h l) \<Longrightarrow> sequence_sum (map f xs) = Inr (map h xs)"
    for f :: "'x \<Rightarrow> error + 'y" and h
  proof -
    fix xs :: "'x list"
    show "\<forall>l \<in> set xs. f l = Inr (h l) \<Longrightarrow> sequence_sum (map f xs) = Inr (map h xs)"
      by (induction xs) auto
  qed
  moreover have "\<forall>l \<in> set ?lv.
      level_targets_of self rescale gt_bboxes gt_labels gt_masks featmap_sizes l
        = Inr ((\<lambda>(rng, stride, fsz, n). empty_targets n fsz (num_classes self)) l)"
  proof
    fix l assume l: "l \<in> set ?lv"
    obtain rng stride fsz n where e: "l = (rng, stride, fsz, n)" by (cases l) auto
    with l have "rng \<in> set (scale_ranges self)" by (auto dest: set_zip_leftD)
    with assms(2) have "hit_inds rng gt_bboxes = []" by simp
    from level_no_hit[OF this] e
    show "level_targets_of self rescale gt_bboxes gt_labels gt_masks featmap_sizes l
        = Inr ((\<lambda>(rng, stride, fsz, n). empty_targets n fsz (num_classes self)) l)" by simp
  qed
  ultimately have "sequence_sum
       (map (level_targets_of self rescale gt_bboxes gt_labels gt_masks featmap_sizes) ?lv)
     = Inr (map (\<lambda>(rng, stride, fsz, n). empty_targets n fsz (num_classes self)) ?lv)"
    by blast
  then show ?thesis using fl by (simp add: get_targets_single_def)
qed

lemma get_targets_single_no_ground_truth:
  "get_targets_single self rescale gt_bboxes [] gt_masks featmap_sizes = Inl IndexError"
  by (simp add: get_targets_single_def py_index_def)

lemma example_hit: "hit_inds (1, 96) [(5, 5, 7, 7)] = [0]"
  by (simp add: hit_inds_def gt_area_in_range_def)

lemma example_instance:
  "map_sum id (\<lambda>t. (level_labels t, pos_mask t))
     (process_instance corner_rescale 4 8 (8, 8) (example_mask, 3, 1 / 5, 1 / 5, True)
        (empty_targets 4 (2, 2) 80))
   = Inr ([[80, 80, 80, 80], [80, 80, 80, 80], [80, 80, 3, 80], [80, 80, 80, 80]],
          (replicate 16 False)[10 := True])"
  by code_simp

lemma example_valid: "0 < sum_list (map sum_list example_mask)"
  by code_simp

lemma example_level:
  "level_targets_of example_solo_head corner_rescale [(5, 5, 7, 7)] [3] [example_mask]
        [(2, 2), (2, 2)] ((1, 96), 8, (2, 2), 4)
   = process_instance corner_rescale 4 8 (8, 8) (example_mask, 3, 1 / 5, 1 / 5, True)
        (empty_targets 4 (2, 2) 80)"
  using example_valid
  by (simp add: level_targets_of_def Let_def example_hit gather_def example_solo_head_def
      split: sum.splits)

text \<open>
  In a level with exactly one ground truth in its scale range, a well-formed box and a
  nonnegative \<open>pos_scale\<close>, every grid cell that carries a label other than background, or
  is set in \<open>pos_mask\<close>, lies within one cell of the cell \<open>(coord_h, coord_w)\<close> of the mass
  center and inside the clip box.
\<close>

lemma single_instance_within_neighbourhood:
  assumes lt: "level_targets_of self rescale gt_bboxes gt_labels gt_masks featmap_sizes
                 (rng, stride, fsz, n) = Inr t"
      and single: "hit_inds rng gt_bboxes = [k]"
      and box: "gt_bboxes ! k = (x1, y1, x2, y2)"
      and wf: "x1 \<le> x2" "y1 \<le> y2" "0 \<le> pos_scale self"
      and rc: "r < n" "c < n"
      and positive: "level_labels t ! r ! c \<noteq> num_classes self \<or> pos_mask t ! (r * n + c)"
      and rg: "rg = region_of n (fst (featmap_sizes ! 0) * 4, snd (featmap_sizes ! 0) * 4)
                      (gt_masks ! k) (0.5 * (y2 - y1) * pos_scale self)
                      (0.5 * (x2 - x1) * pos_scale self)"
  shows "coord_h rg - 1 \<le> int r \<and> int r \<le> coord_h rg + 1
       \<and> coord_w rg - 1 \<le> int c \<and> int c \<le> coord_w rg + 1
       \<and> top_box rg \<le> int r \<and> int r \<le> down_box rg
       \<and> left_box rg \<le> int c \<and> int c \<le> right_box rg"
proof -
  from single_instance_positive_cells[OF lt single box wf rc positive]
  have "top_row rg \<le> int r \<and> int r \<le> down rg \<and> left rg \<le> int c \<and> int c \<le> right rg"
    unfolding rg .
  then show ?thesis using in_region_neighbourhood[of rg "int r" "int c"] by blast
qed

lemma example_region:
  "region_of 4 (8, 8) example_mask (1 / 5) (1 / 5)
     = \<lparr>coord_h = 2, coord_w = 2, top_box = 2, down_box = 2, left_box = 2, right_box = 2\<rparr>"
  by code_simp

lemma single_instance_example:
  "level_labels (projr (level_targets_of example_solo_head corner_rescale [(5, 5, 7, 7)] [3]
        [example_mask] [(2, 2), (2, 2)] ((1, 96), 8, (2, 2), 4))) ! 2 ! 2 = 3
   \<and> coord_h (region_of 4 (8, 8) example_mask (1 / 5) (1 / 5)) = 2
   \<and> coord_w (region_of 4 (8, 8) example_mask (1 / 5) (1 / 5)) = 2"
proof -
  let ?r = "level_targets_of example_solo_head corner_rescale [(5, 5, 7, 7)] [3]
        [example_mask] [(2, 2), (2, 2)] ((1, 96), 8, (2, 2), 4)"
  let ?p = "process_instance corner_rescale 4 8 (8, 8) (example_mask, 3, 1 / 5, 1 / 5, True)
        (empty_targets 4 (2, 2) 80)"
  obtain t where p: "?p = Inr t"
    using example_instance by (cases ?p) simp_all
  have t: "?r = Inr t" using example_level p by simp
  have lab: "level_labels t = [[80, 80, 80, 80], [80, 80, 80, 80], [80, 80, 3, 80],
                                [80, 80, 80, 80]]"
    using example_instance p by simp
  have pos: "level_labels t ! 2 ! 2 \<noteq> num_classes example_solo_head \<or> pos_mask t ! (2 * 4 + 2)"
    using lab by (simp add: example_solo_head_def)
  have b: "[(5, 5, 7, 7)] ! 0 = (5 :: real, 5 :: real, 7 :: real, 7 :: real)" by simp
  have rg: "region_of 4 (8, 8) example_mask (1 / 5) (1 / 5)
     = region_of 4 (fst ([(2 :: nat, 2 :: nat), (2, 2)] ! 0) * 4,
                    snd ([(2 :: nat, 2 :: nat), (2, 2)] ! 0) * 4)
         ([example_mask] ! 0) (0.5 * (7 - 5) * pos_scale example_solo_head)
         (0.5 * (7 - 5) * pos_scale example_solo_head)"
    by (simp add: example_solo_head_def)
  from single_instance_within_neighbourhood[OF t example_hit b _ _ _ _ _ pos rg]
  have "coord_h (region_of 4 (8, 8) example_mask (1 / 5) (1 / 5)) - 1 \<le> 2"
    by (simp add: example_solo_head_def)
  then show ?thesis using t lab example_region by simp
qed

text \<open>
  Claim C7 does not hold of the code for an image without any ground truth: the first
  statement of \<open>_get_targets_single\<close> reads \<open>gt_labels[0]\<close>, and on the empty label tensor
  that raises before any target is built. The rest of the claim holds: the
  single-instance half is \<open>single_instance_within_neighbourhood\<close>; for an image that has a
  ground truth, none of them in the scale range of the level, the level gets the empty
  targets (\<open>get_targets_single_no_hit\<close>), all background and no positive cell
  (\<open>empty_targets_background\<close>).
\<close>

theorem C7_zero_ground_truths_raise:
  "get_targets_single example_solo_head corner_rescale [] [] [] [(2, 2), (2, 2)]
     = Inl IndexError"
  by (rule get_targets_single_no_ground_truth)

end
